theory Spec2Isabelle
  imports Complex_Main
begin

section \<open>Data model (types.ts)\<close>

text \<open>
  The interfaces of \<^verbatim>\<open>types.ts\<close> become records. A JavaScript string is a list of
  code units; the model writes it as a \<^typ>\<open>string\<close>, one \<^typ>\<open>char\<close> per code unit, so
  that an offset into the text is an index into the list. A number of the program is a
  finite double; the model keeps it as the rational, or the integer, that it denotes
  (\<open>is_double\<close> below says which rationals are doubles). \<^verbatim>\<open>scene_id\<close> is an integer, as
  the response schema declares it. The optional \<^verbatim>\<open>dialogue\<close> is an option.
\<close>

record DialogueLine =
  speaker :: string
  line :: string

record Scene =
  scene_id :: int
  timestamp_start_seconds :: rat
  timestamp_end_seconds :: rat
  description :: string
  objects :: "string list"
  actions :: "string list"
  dialogue :: "DialogueLine list option"

record VideoAnalysis =
  title :: string
  summary :: string
  scenes :: "Scene list"

record ShotPrompt =
  shot_id :: int
  timestamp :: string
  prompt :: string
  scene :: Scene

section \<open>The platform's numbers\<close>

text \<open>
  Arithmetic on doubles rounds. \<open>fl\<close> is the double nearest to a rational, ties going to
  the even significand: \<open>expo x\<close> is the exponent \<open>e\<close> with \<open>2\<^sup>e \<le> x < 2\<^sup>e\<^sup>+\<^sup>1\<close>, \<open>ulp x\<close> the
  distance of the doubles around \<open>x\<close>, and \<open>rne\<close> rounds to the nearest integer. The model
  has neither subnormal numbers nor infinities: the only quotient the program forms is
  that of a whole number of seconds by 60, which is 0 or at least 1/60 and cannot overflow.
\<close>

function bits :: "int \<Rightarrow> nat" where
  "bits n = (if n \<le> 0 then 0 else Suc (bits (n div 2)))"
  by pat_completeness auto
termination
  by (relation "measure nat") auto

declare bits.simps [simp del]

definition scale_by :: "nat \<Rightarrow> int \<Rightarrow> rat" where
  "scale_by b e = (if 0 \<le> e then of_nat b ^ nat e else 1 / of_nat b ^ nat (- e))"

definition expo :: "rat \<Rightarrow> int" where
  "expo x = (if 1 \<le> x then int (bits \<lfloor>x\<rfloor>) - 1 else - int (bits (\<lceil>1 / x\<rceil> - 1)))"

definition ulp :: "rat \<Rightarrow> rat" where
  "ulp x = scale_by 2 (expo x - 52)"

definition rne :: "rat \<Rightarrow> int" where
  "rne y =
     (let f = \<lfloor>y\<rfloor>; d = y - of_int f
      in if d < 1 / 2 then f
         else if 1 / 2 < d then f + 1
         else if even f then f else f + 1)"

definition fl :: "rat \<Rightarrow> rat" where
  "fl x =
     (if x = 0 then 0
      else if x < 0 then - (of_int (rne (- x / ulp (- x))) * ulp (- x))
      else of_int (rne (x / ulp x)) * ulp x)"

definition is_double :: "rat \<Rightarrow> bool" where
  "is_double x = (fl x = x)"

section \<open>The platform's string operations\<close>

text \<open>
  \<^verbatim>\<open>Number.prototype.toString\<close> on an integer value. Below \<open>2\<^sup>5\<^sup>3\<close> every integer is a
  double and is written with all its digits (\<open>decimal\<close>; \<open>digits_value\<close> reads them back).
  From \<open>2\<^sup>5\<^sup>3\<close> on the platform writes the shortest digits that round to the number,
  \<open>round_trip\<close>: the least number \<open>k\<close> of digits for which some \<open>s\<close> of \<open>k\<close> digits and
  some \<open>n\<close> give a decimal \<open>s \<times> 10\<^sup>n\<^sup>-\<^sup>k\<close> that rounds to the number, the nearest such
  decimal if there are two, followed by zeros up to \<open>n = 21\<close> and in exponent form beyond.
  A negative number is written with a minus sign in front.
\<close>

definition digit_char :: "nat \<Rightarrow> char" where
  "digit_char d = ''0123456789'' ! d"

function decimal :: "int \<Rightarrow> string" where
  "decimal n =
     (if n < 10 then [digit_char (nat n)]
      else decimal (n div 10) @ [digit_char (nat (n mod 10))])"
  by pat_completeness auto
termination
  by (relation "measure nat") auto

declare decimal.simps [simp del]

definition digits_value :: "string \<Rightarrow> nat" where
  "digits_value s = foldl (\<lambda>a c. 10 * a + (of_char c - 48)) 0 s"

definition shortest_try :: "int \<Rightarrow> nat \<Rightarrow> nat \<Rightarrow> int option" where
  "shortest_try x n k =
     (let unit = scale_by 10 (int n - int k);
          lo = \<lfloor>of_int x / unit\<rfloor>;
          hi = lo + 1;
          lo_ok = (fl (of_int lo * unit) = of_int x);
          hi_ok = (fl (of_int hi * unit) = of_int x);
          lo_gap = of_int x - of_int lo * unit;
          hi_gap = of_int hi * unit - of_int x
      in if lo_ok \<and> hi_ok then
           (if lo_gap < hi_gap then Some lo
            else if hi_gap < lo_gap then Some hi
            else if even lo then Some lo else Some hi)
         else if lo_ok then Some lo
         else if hi_ok then Some hi
         else None)"

text \<open>
  Seventeen digits suffice for a double; the search ends there at the latest, and for
  an integer that is not a double, which is no value of the program, with all its digits.
\<close>

fun shortest :: "int \<Rightarrow> nat \<Rightarrow> nat \<Rightarrow> nat \<Rightarrow> int \<times> nat" where
  "shortest x n k 0 = (x, n)"
| "shortest x n k (Suc fuel) =
     (case shortest_try x n k of
        Some s \<Rightarrow> (s, k)
      | None \<Rightarrow> shortest x n (Suc k) fuel)"

definition round_trip :: "int \<Rightarrow> string" where
  "round_trip x =
     (let n0 = length (decimal x);
          (c, k) = shortest x n0 1 17;
          (s, n) = (if c = 10 ^ k then (10 ^ (k - 1), Suc n0) else (c, n0));
          ds = decimal s
      in if n \<le> 21 then ds @ replicate (n - k) (CHR ''0'')
         else (if k = 1 then ds else take 1 ds @ ''.'' @ drop 1 ds)
              @ ''e+'' @ decimal (int n - 1))"

definition Number_toString :: "int \<Rightarrow> string" where
  "Number_toString i =
     (let x = \<bar>i\<bar>;
          ds = (if x < 2 ^ 53 then decimal x else round_trip x)
      in if i < 0 then CHR ''-'' # ds else ds)"

text \<open>A text between double quotes, as a template literal writes it.\<close>

definition quoted :: "string \<Rightarrow> string" where
  "quoted s = [CHR 0x22] @ s @ [CHR 0x22]"

text \<open>\<^verbatim>\<open>String.prototype.padStart\<close> with a pad string of one character.\<close>

definition padStart :: "nat \<Rightarrow> char \<Rightarrow> string \<Rightarrow> string" where
  "padStart targetLength c s = replicate (targetLength - length s) c @ s"

text \<open>
  The remainder operator \<^verbatim>\<open>%\<close> on integer values: the result has the sign of the
  dividend.
\<close>

definition js_rem :: "int \<Rightarrow> int \<Rightarrow> int" where
  "js_rem a b = sgn a * (\<bar>a\<bar> mod \<bar>b\<bar>)"

text \<open>\<^verbatim>\<open>Array.prototype.join\<close> on an array of strings.\<close>

fun join :: "string \<Rightarrow> string list \<Rightarrow> string" where
  "join sep [] = []"
| "join sep [x] = x"
| "join sep (x # y # ys) = x @ sep @ join sep (y # ys)"

text \<open>\<^verbatim>\<open>String.prototype.startsWith\<close>.\<close>

definition startsWith :: "string \<Rightarrow> string \<Rightarrow> bool" where
  "startsWith s p = (take (length p) s = p)"

section \<open>formatTime (App.tsx)\<close>

text \<open>
  \<^verbatim>\<open>Math.floor\<close> and \<^verbatim>\<open>%\<close> are exact on doubles; the division is rounded.
\<close>

definition formatTime :: "rat \<Rightarrow> string" where
  "formatTime seconds =
     (let floorSeconds = \<lfloor>seconds\<rfloor>;
          m = \<lfloor>fl (of_int floorSeconds / 60)\<rfloor>;
          s = js_rem floorSeconds 60
      in Number_toString m @ '':'' @ padStart 2 (CHR ''0'') (Number_toString s))"

section \<open>Prompt synthesis (the body of the map in App's jsonOutput effect)\<close>

definition dialogueText :: "DialogueLine list \<Rightarrow> string" where
  "dialogueText ds = join '' '' (map (\<lambda>d. speaker d @ '': '' @ quoted (line d)) ds)"

definition promptText :: "Scene \<Rightarrow> string" where
  "promptText sc =
     (let p1 = ''Cinematic shot: '' @ description sc @ ''.'';
          p2 = (case dialogue sc of
                  None \<Rightarrow> p1
                | Some ds \<Rightarrow>
                    if length ds > 0 then p1 @ '' Dialogue: '' @ dialogueText ds @ ''.'' else p1)
      in p2 @ '' Prominent objects: '' @ join '', '' (objects sc)
            @ ''. Actions: '' @ join '', '' (actions sc) @ ''.'')"

definition shot_of_scene :: "Scene \<Rightarrow> ShotPrompt" where
  "shot_of_scene sc =
     \<lparr> shot_id = scene_id sc,
       timestamp = formatTime (timestamp_start_seconds sc) @ '' - ''
                   @ formatTime (timestamp_end_seconds sc),
       prompt = promptText sc,
       scene = sc \<rparr>"

section \<open>The scene locator (inside handleShotPromptClick, App.tsx)\<close>

text \<open>
  \<^verbatim>\<open>String.prototype.indexOf(searchString, position)\<close>: the least index, not below
  the position, at which the search string occurs, and \<open>-1\<close> when there is none.
  \<open>search\<close> scans a text from its first code unit.
\<close>

fun search :: "string \<Rightarrow> string \<Rightarrow> nat option" where
  "search pat [] = (if pat = [] then Some 0 else None)"
| "search pat (c # cs) =
     (if startsWith (c # cs) pat then Some 0 else map_option Suc (search pat cs))"

definition indexOf :: "string \<Rightarrow> string \<Rightarrow> nat \<Rightarrow> int" where
  "indexOf s pat position =
     (case search pat (drop position s) of
        None \<Rightarrow> - 1
      | Some k \<Rightarrow> int (min position (length s) + k))"

definition sceneIdentifier :: "int \<Rightarrow> string" where
  "sceneIdentifier sid = quoted ''scene_id'' @ '': '' @ Number_toString sid"

text \<open>
  Lines 237 to 243 of the handler: the span that it hands to
  \<^verbatim>\<open>setSelectionRange\<close>, \<open>startIndex\<close> and \<open>finalEndIndex\<close> of the source, or nothing
  when the textarea ref is not set, the text is empty or the identifier does not occur in
  it. The first argument says whether \<^verbatim>\<open>jsonTextareaRef.current\<close> is set.
\<close>

definition locate :: "bool \<Rightarrow> string \<Rightarrow> int \<Rightarrow> (nat \<times> nat) option" where
  "locate textarea jsonOutput sid =
     (if textarea \<and> jsonOutput \<noteq> [] then
        let startIndex = indexOf jsonOutput (sceneIdentifier sid) 0
        in if startIndex \<noteq> - 1 then
             let endIndex = indexOf jsonOutput [CHR 0x0A] (nat startIndex);
                 finalEndIndex = (if endIndex = - 1 then int (length jsonOutput) else endIndex)
             in Some (nat startIndex, nat finalEndIndex)
           else None
      else None)"

text \<open>\<open>occurs_at pat s k\<close>: the pattern occurs in the text at offset \<open>k\<close>.\<close>

definition occurs_at :: "string \<Rightarrow> string \<Rightarrow> nat \<Rightarrow> bool" where
  "occurs_at pat s k = (k + length pat \<le> length s \<and> take (length pat) (drop k s) = pat)"

section \<open>The analysis client (services/geminiService.ts)\<close>

text \<open>
  A value that is thrown, or that a promise rejects with: an \<^verbatim>\<open>Error\<close> instance with
  its message, or some other value (the caller tells the two apart with
  \<^verbatim>\<open>instanceof Error\<close>).
\<close>

datatype thrown = Error string | NonError string

record File =
  file_name :: string
  file_type :: string

text \<open>
  What the client takes from its platform: the environment variable, the file reader
  (\<open>None\<close> is its error event), the remote model (the response text, or the rejection),
  and the JSON functions of the standard library over documents of type \<open>'j\<close>;
  \<^verbatim>\<open>JSON.parse\<close> throws on a text that is not JSON, and the last argument of
  \<^verbatim>\<open>JSON.stringify\<close> is the indentation.
\<close>

record 'j platform =
  API_KEY :: "string option"
  readAsDataURL :: "File \<Rightarrow> string option"
  generateContent :: "string \<Rightarrow> string \<Rightarrow> thrown + string"
  JSON_parse :: "string \<Rightarrow> thrown + 'j"
  JSON_stringify :: "'j \<Rightarrow> nat \<Rightarrow> string"
  createObjectURL :: "File \<Rightarrow> string"

text \<open>The observable actions of one call of the client, in the order they happen.\<close>

datatype effect =
    ReadFile File
  | Progress string
  | RemoteRequest string string

text \<open>\<^verbatim>\<open>String.prototype.split\<close> at a separator of one character.\<close>

fun split_at :: "char \<Rightarrow> string \<Rightarrow> string list" where
  "split_at c [] = [[]]"
| "split_at c (x # xs) =
     (if x = c then [] # split_at c xs
      else (case split_at c xs of [] \<Rightarrow> [[x]] | p # ps \<Rightarrow> (x # p) # ps))"

definition fileToBase64 :: "'j platform \<Rightarrow> File \<Rightarrow> thrown + string" where
  "fileToBase64 env f =
     (case readAsDataURL env f of
        None \<Rightarrow> Inl (NonError ''ProgressEvent'')
      | Some url \<Rightarrow>
          (case split_at (CHR '','') url of
             _ # result # _ \<Rightarrow>
               if result \<noteq> [] then Inr result
               else Inl (Error ''Failed to convert file to base64.'')
           | _ \<Rightarrow> Inl (Error ''Failed to convert file to base64.'')))"

definition analyzeVideoWithGemini :: "'j platform \<Rightarrow> File \<Rightarrow> effect list \<times> (thrown + string)" where
  "analyzeVideoWithGemini env videoFile =
     (if API_KEY env = None \<or> API_KEY env = Some [] then
        ([], Inl (Error ''API_KEY environment variable not set.''))
      else
        (case fileToBase64 env videoFile of
           Inl e \<Rightarrow> ([ReadFile videoFile], Inl e)
         | Inr videoBase64 \<Rightarrow>
             let trace = [ReadFile videoFile,
                          Progress ''Uploading and analyzing with Gemini AI... This may take a moment.'',
                          RemoteRequest (file_type videoFile) videoBase64]
             in (case generateContent env (file_type videoFile) videoBase64 of
                   Inl e \<Rightarrow> (trace, Inl e)
                 | Inr jsonText \<Rightarrow>
                     (case JSON_parse env jsonText of
                        Inr parsedJson \<Rightarrow> (trace, Inr (JSON_stringify env parsedJson 2))
                      | Inl e \<Rightarrow> (trace, Inr jsonText)))))"

section \<open>The session (the App component, App.tsx)\<close>

datatype tab = Prompts | Json

record app_state =
  videoFile :: "File option"
  videoUrl :: "string option"
  jsonOutput :: string
  isLoading :: bool
  error :: "string option"
  progressMessage :: string
  copyButtonText :: string
  shotPrompts :: "ShotPrompt list"
  activeTab :: tab
  selectedSceneId :: "int option"

definition initial_state :: app_state where
  "initial_state =
     \<lparr> videoFile = None, videoUrl = None, jsonOutput = [], isLoading = False, error = None,
       progressMessage = [], copyButtonText = ''Copy'', shotPrompts = [],
       activeTab = Prompts, selectedSceneId = None \<rparr>"

subsection \<open>The effect on jsonOutput\<close>

text \<open>
  The source annotates the parsed document as a \<^verbatim>\<open>VideoAnalysis\<close>, and the model
  follows the annotation: the session's documents are values of \<^typ>\<open>VideoAnalysis\<close>.
  The \<^verbatim>\<open>catch\<close> clause takes whatever the \<^verbatim>\<open>try\<close> block throws.
\<close>

definition prompt_effect :: "VideoAnalysis platform \<Rightarrow> app_state \<Rightarrow> app_state" where
  "prompt_effect env st =
     (if jsonOutput st \<noteq> [] then
        (case JSON_parse env (jsonOutput st) of
           Inr analysis \<Rightarrow>
             st\<lparr>shotPrompts := map shot_of_scene (scenes analysis), activeTab := Prompts\<rparr>
         | Inl e \<Rightarrow> st\<lparr>shotPrompts := []\<rparr>)
      else st\<lparr>shotPrompts := []\<rparr>)"

text \<open>
  The effect has the dependency list \<^verbatim>\<open>[jsonOutput]\<close>: after a handler has run, it
  runs if and only if the handler has changed \<^verbatim>\<open>jsonOutput\<close>.
\<close>

definition rerender :: "VideoAnalysis platform \<Rightarrow> app_state \<Rightarrow> app_state \<Rightarrow> app_state" where
  "rerender env old new = (if jsonOutput new = jsonOutput old then new else prompt_effect env new)"

subsection \<open>handleFileUpload\<close>

text \<open>
  The handler is asynchronous: \<open>handleFileUpload_begin\<close> is what it does up to its
  \<^verbatim>\<open>await\<close> (the flag says whether it called the client and is now suspended), and
  \<open>handleFileUpload_resume\<close> is what it does once the client has settled, the client's
  progress callback being \<^verbatim>\<open>setProgressMessage\<close>. The message of the callback is on
  the page while the response is awaited; the model sets it when the client settles,
  together with what follows the \<^verbatim>\<open>await\<close>, which overwrites it.
\<close>

definition handleFileUpload_begin :: "VideoAnalysis platform \<Rightarrow> File \<Rightarrow> app_state \<Rightarrow> app_state \<times> bool" where
  "handleFileUpload_begin env f st =
     (if \<not> startsWith (file_type f) ''video/'' then
        (st\<lparr>error := Some ''Please upload a valid video file.''\<rparr>, False)
      else
        (st\<lparr>videoFile := Some f, videoUrl := Some (createObjectURL env f), error := None,
            isLoading := True, jsonOutput := [],
            progressMessage := ''Preparing video for analysis...''\<rparr>, True))"

fun setProgress :: "app_state \<Rightarrow> effect \<Rightarrow> app_state" where
  "setProgress st (Progress message) = st\<lparr>progressMessage := message\<rparr>"
| "setProgress st _ = st"

definition handleFileUpload_resume :: "effect list \<times> (thrown + string) \<Rightarrow> app_state \<Rightarrow> app_state" where
  "handleFileUpload_resume settled st =
     (let st1 = foldl setProgress st (fst settled);
          st2 = (case snd settled of
                   Inr result \<Rightarrow>
                     st1\<lparr>progressMessage := ''Formatting response...'', jsonOutput := result\<rparr>
                 | Inl err \<Rightarrow>
                     st1\<lparr>error := Some (case err of
                                           Error message \<Rightarrow> message
                                         | NonError _ \<Rightarrow> ''An unknown error occurred during analysis.'')\<rparr>)
      in st2\<lparr>isLoading := False, progressMessage := []\<rparr>)"

text \<open>The handler run from its call to its end, nothing else happening in between.\<close>

definition handleFileUpload :: "VideoAnalysis platform \<Rightarrow> File \<Rightarrow> app_state \<Rightarrow> app_state" where
  "handleFileUpload env f st =
     (case handleFileUpload_begin env f st of
        (st1, False) \<Rightarrow> rerender env st st1
      | (st1, True) \<Rightarrow>
          (let st2 = rerender env st st1
           in rerender env st2 (handleFileUpload_resume (analyzeVideoWithGemini env f) st2)))"

subsection \<open>The other handlers\<close>

text \<open>
  The state of the model is the state of the component. The release of the object URL,
  the console, the clipboard and the download act outside it and are left out, and with
  them the two handlers that only copy or download the text.
\<close>

definition handleReset :: "app_state \<Rightarrow> app_state" where
  "handleReset st =
     st\<lparr>videoFile := None, videoUrl := None, jsonOutput := [], error := None,
        isLoading := False, progressMessage := [], copyButtonText := ''Copy'',
        shotPrompts := [], activeTab := Prompts, selectedSceneId := None\<rparr>"

definition handleFormatJson :: "VideoAnalysis platform \<Rightarrow> app_state \<Rightarrow> app_state" where
  "handleFormatJson env st =
     (case JSON_parse env (jsonOutput st) of
        Inr parsed \<Rightarrow> st\<lparr>jsonOutput := JSON_stringify env parsed 2\<rparr>
      | Inl e \<Rightarrow> st)"

text \<open>
  What is on the page is a function of the state: the video element and the textarea are
  mounted, and their refs are set, exactly under the conditions of the markup.
\<close>

definition result_shown :: "app_state \<Rightarrow> bool" where
  "result_shown st = (\<not> isLoading st \<and> jsonOutput st \<noteq> [])"

definition video_mounted :: "app_state \<Rightarrow> bool" where
  "video_mounted st = (result_shown st \<and> videoUrl st \<noteq> None \<and> videoUrl st \<noteq> Some [])"

definition textarea_mounted :: "app_state \<Rightarrow> bool" where
  "textarea_mounted st = (result_shown st \<and> activeTab st = Json)"

datatype dom_effect = SetCurrentTime rat | Play | Focus | SetSelectionRange nat nat

definition handleShotPromptClick :: "app_state \<Rightarrow> Scene \<Rightarrow> app_state \<times> dom_effect list" where
  "handleShotPromptClick st sc =
     (let st1 = st\<lparr>selectedSceneId := Some (scene_id sc)\<rparr>;
          seek = (if video_mounted st then [SetCurrentTime (timestamp_start_seconds sc), Play] else [])
      in case locate (textarea_mounted st) (jsonOutput st) (scene_id sc) of
           Some (startIndex, finalEndIndex) \<Rightarrow>
             (st1\<lparr>activeTab := Json\<rparr>, seek @ [Focus, SetSelectionRange startIndex finalEndIndex])
         | None \<Rightarrow> (st1, seek))"

subsection \<open>Executions\<close>

text \<open>
  A session is the state of the component and the files whose analysis is outstanding
  (the calls of \<open>handleFileUpload\<close> suspended at their \<^verbatim>\<open>await\<close>). An event is a
  call of a handler, or the settling of an outstanding analysis; the page is rendered
  again, and the effect run, after each event.
\<close>

record session =
  app :: app_state
  pending :: "File list"

datatype event =
    UploadFile File
  | AnalysisSettles nat
  | Reset
  | EditJson string
  | FormatJson
  | SetActiveTab tab
  | ClickShot Scene

fun step :: "VideoAnalysis platform \<Rightarrow> session \<Rightarrow> event \<Rightarrow> session" where
  "step env s (UploadFile f) =
     (case handleFileUpload_begin env f (app s) of
        (st, started) \<Rightarrow>
          \<lparr> app = rerender env (app s) st,
            pending = (if started then pending s @ [f] else pending s) \<rparr>)"
| "step env s (AnalysisSettles i) =
     (if i < length (pending s) then
        \<lparr> app = rerender env (app s)
                  (handleFileUpload_resume (analyzeVideoWithGemini env (pending s ! i)) (app s)),
          pending = take i (pending s) @ drop (Suc i) (pending s) \<rparr>
      else s)"
| "step env s Reset = s\<lparr>app := rerender env (app s) (handleReset (app s))\<rparr>"
| "step env s (EditJson text) = s\<lparr>app := rerender env (app s) ((app s)\<lparr>jsonOutput := text\<rparr>)\<rparr>"
| "step env s FormatJson = s\<lparr>app := rerender env (app s) (handleFormatJson env (app s))\<rparr>"
| "step env s (SetActiveTab t) = s\<lparr>app := (app s)\<lparr>activeTab := t\<rparr>\<rparr>"
| "step env s (ClickShot sc) = s\<lparr>app := fst (handleShotPromptClick (app s) sc)\<rparr>"

definition initial_session :: session where
  "initial_session = \<lparr> app = initial_state, pending = [] \<rparr>"

definition exec :: "VideoAnalysis platform \<Rightarrow> session \<Rightarrow> event list \<Rightarrow> session" where
  "exec env s es = foldl (step env) s es"

text \<open>
  The events the page offers in a state: the upload area is rendered while there is no
  file and nothing is loading, the reset buttons with the error or with the result, the
  tabs with the result, the prompt cards in the prompts tab and the textarea with its
  format button in the JSON tab.
\<close>

fun offered :: "session \<Rightarrow> event \<Rightarrow> bool" where
  "offered s (UploadFile f) = (videoFile (app s) = None \<and> \<not> isLoading (app s))"
| "offered s (AnalysisSettles i) = (i < length (pending s))"
| "offered s Reset =
     (if error (app s) = None \<or> error (app s) = Some [] then result_shown (app s) else True)"
| "offered s (EditJson text) = textarea_mounted (app s)"
| "offered s FormatJson = textarea_mounted (app s)"
| "offered s (SetActiveTab t) = result_shown (app s)"
| "offered s (ClickShot sc) =
     (result_shown (app s) \<and> activeTab (app s) = Prompts \<and> sc \<in> scene ` set (shotPrompts (app s)))"

definition ui_step :: "VideoAnalysis platform \<Rightarrow> session \<Rightarrow> event \<Rightarrow> session" where
  "ui_step env s e = (if offered s e then step env s e else s)"

definition ui_exec :: "VideoAnalysis platform \<Rightarrow> session \<Rightarrow> event list \<Rightarrow> session" where
  "ui_exec env s es = foldl (ui_step env) s es"

section \<open>Sample data\<close>

text \<open>
  A file, a document of two scenes with its pretty-printed text, and a platform that has
  a key, reads the file, answers with that text and knows this one document. They are the
  concrete inputs at which the theorems below are instantiated.
\<close>

definition sample_file :: File where
  "sample_file = \<lparr> file_name = ''clip.mp4'', file_type = ''video/mp4'' \<rparr>"

definition sample_street :: Scene where
  "sample_street =
     \<lparr> scene_id = 10, timestamp_start_seconds = 0, timestamp_end_seconds = 8,
       description = ''A street'', objects = [], actions = [], dialogue = None \<rparr>"

definition sample_cat :: Scene where
  "sample_cat =
     \<lparr> scene_id = 1, timestamp_start_seconds = 8, timestamp_end_seconds = 10,
       description = ''A cat'', objects = [''cat'', ''wall''], actions = [''jumps''],
       dialogue = Some [\<lparr> speaker = ''Person 1'', line = ''Hello'' \<rparr>] \<rparr>"

definition sample_analysis :: VideoAnalysis where
  "sample_analysis =
     \<lparr> title = ''Clip'', summary = ''Two shots'', scenes = [sample_street, sample_cat] \<rparr>"

definition sample_json :: string where
  "sample_json = join [CHR 0x0A]
     [''{'',
      ''  '' @ quoted ''title'' @ '': '' @ quoted ''Clip'' @ '','',
      ''  '' @ quoted ''summary'' @ '': '' @ quoted ''Two shots'' @ '','',
      ''  '' @ quoted ''scenes'' @ '': ['',
      ''    {'',
      ''      '' @ quoted ''scene_id'' @ '': 10,'',
      ''      '' @ quoted ''timestamp_start_seconds'' @ '': 0,'',
      ''      '' @ quoted ''timestamp_end_seconds'' @ '': 8,'',
      ''      '' @ quoted ''description'' @ '': '' @ quoted ''A street'' @ '','',
      ''      '' @ quoted ''objects'' @ '': [],'',
      ''      '' @ quoted ''actions'' @ '': []'',
      ''    },'',
      ''    {'',
      ''      '' @ quoted ''scene_id'' @ '': 1,'',
      ''      '' @ quoted ''timestamp_start_seconds'' @ '': 8,'',
      ''      '' @ quoted ''timestamp_end_seconds'' @ '': 10,'',
      ''      '' @ quoted ''description'' @ '': '' @ quoted ''A cat'' @ '','',
      ''      '' @ quoted ''dialogue'' @ '': ['',
      ''        {'',
      ''          '' @ quoted ''speaker'' @ '': '' @ quoted ''Person 1'' @ '','',
      ''          '' @ quoted ''line'' @ '': '' @ quoted ''Hello'',
      ''        }'',
      ''      ],'',
      ''      '' @ quoted ''objects'' @ '': ['',
      ''        '' @ quoted ''cat'' @ '','',
      ''        '' @ quoted ''wall'',
      ''      ],'',
      ''      '' @ quoted ''actions'' @ '': ['',
      ''        '' @ quoted ''jumps'',
      ''      ]'',
      ''    }'',
      ''  ]'',
      ''}'']"

definition sample_platform :: "VideoAnalysis platform" where
  "sample_platform =
     \<lparr> API_KEY = Some ''key'',
       readAsDataURL = (\<lambda>f. Some ''data:video/mp4;base64,AAAA''),
       generateContent = (\<lambda>mimeType data. Inr sample_json),
       JSON_parse = (\<lambda>text. if text = sample_json then Inr sample_analysis
                             else Inl (Error ''Unexpected token'')),
       JSON_stringify = (\<lambda>document space. sample_json),
       createObjectURL = (\<lambda>f. ''blob:'' @ file_name f) \<rparr>"

definition sample_twins :: VideoAnalysis where
  "sample_twins =
     \<lparr> title = ''Twins'', summary = ''One id twice'',
       scenes = [sample_cat, sample_cat\<lparr>description := ''The cat again''\<rparr>] \<rparr>"

text \<open>The session after the sample file has been uploaded and its analysis has settled.\<close>

definition sample_ready :: session where
  "sample_ready = exec sample_platform initial_session [UploadFile sample_file, AnalysisSettles 0]"

section \<open>Notions of the specification\<close>

text \<open>
  The prompt list that a JSON text determines: empty for the empty text and for a text
  that does not parse, and one prompt for each scene of the document otherwise.
\<close>

definition prompts_of_text :: "VideoAnalysis platform \<Rightarrow> string \<Rightarrow> ShotPrompt list" where
  "prompts_of_text env text =
     (if text = [] then []
      else (case JSON_parse env text of
              Inl e \<Rightarrow> []
            | Inr analysis \<Rightarrow> map shot_of_scene (scenes analysis)))"

text \<open>The calls of the progress callback, and the requests to the remote model, in a trace.\<close>

fun is_progress :: "effect \<Rightarrow> bool" where
  "is_progress (Progress message) = True"
| "is_progress _ = False"

fun is_request :: "effect \<Rightarrow> bool" where
  "is_request (RemoteRequest mimeType data) = True"
| "is_request _ = False"

text \<open>
  While an analysis is outstanding the state is loading and has no error, so the page
  offers nothing but to wait for it.
\<close>

definition one_outstanding :: "session \<Rightarrow> bool" where
  "one_outstanding s =
     (if pending s = [] then True
      else length (pending s) = 1 \<and> isLoading (app s) \<and> error (app s) = None)"

section \<open>Decimal rendering and formatTime\<close>

lemma digit_char_in: "d < 10 \<Longrightarrow> digit_char d \<in> set ''0123456789''"
  unfolding digit_char_def by (rule nth_mem) simp

lemma decimal_small: "n < 10 \<Longrightarrow> decimal n = [digit_char (nat n)]"
  by (subst decimal.simps) simp

lemma decimal_step:
  "10 \<le> n \<Longrightarrow> decimal n = decimal (n div 10) @ [digit_char (nat (n mod 10))]"
  by (subst decimal.simps) simp

lemma digit_char_code: "d < 10 \<Longrightarrow> of_char (digit_char d) = (48 + d :: nat)"
proof -
  have "\<forall>d \<in> set [0..<10]. of_char (digit_char d) = (48 + d :: nat)" by code_simp
  then show "d < 10 \<Longrightarrow> of_char (digit_char d) = (48 + d :: nat)" by simp
qed

lemma decimal_value: "0 \<le> n \<Longrightarrow> digits_value (decimal n) = nat n"
proof (induction n rule: decimal.induct)
  case (1 n)
  show ?case
  proof (cases "n < 10")
    case True
    with 1(2) show ?thesis by (simp add: decimal_small digits_value_def digit_char_code)
  next
    case False
    with 1 have "digits_value (decimal (n div 10)) = nat (n div 10)" by simp
    moreover have "nat (n mod 10) < 10" by simp
    moreover have "10 * nat (n div 10) + nat (n mod 10) = nat n"
    proof -
      have "0 \<le> n div 10" using 1(2) by (simp add: pos_imp_zdiv_nonneg_iff)
      then have "int (10 * nat (n div 10) + nat (n mod 10)) = 10 * (n div 10) + n mod 10"
        by simp
      also have "\<dots> = n" by simp
      finally show ?thesis using 1(2) by linarith
    qed
    ultimately show ?thesis using False
      by (simp add: decimal_step digits_value_def digit_char_code)
  qed
qed

lemma bits_positive: "0 < n \<Longrightarrow> bits n = Suc (bits (n div 2))"
  by (subst bits.simps) simp

lemma bits_lower: "0 < n \<Longrightarrow> 2 ^ (bits n - 1) \<le> n"
proof (induction n rule: bits.induct)
  case (1 n)
  show ?case
  proof (cases "n div 2 = 0")
    case True
    then have "bits (n div 2) = 0" by (subst bits.simps) simp
    with 1(2) show ?thesis by (simp add: bits_positive)
  next
    case False
    with 1(2) have p: "0 < n div 2" by simp
    with 1 have ih: "2 ^ (bits (n div 2) - 1) \<le> n div 2" by simp
    have "bits (n div 2) = Suc (bits (n div 2) - 1)" using p by (simp add: bits_positive)
    then have "(2::int) ^ bits (n div 2) = 2 * 2 ^ (bits (n div 2) - 1)"
      by (metis power_Suc)
    also have "\<dots> \<le> 2 * (n div 2)" using ih by simp
    also have "\<dots> \<le> n" by simp
    finally show ?thesis using 1(2) by (simp add: bits_positive)
  qed
qed

lemma bits_le:
  assumes "0 < n" and "n < 2 ^ k"
  shows "bits n \<le> k"
proof (rule ccontr)
  assume "\<not> bits n \<le> k"
  then have "k \<le> bits n - 1" by simp
  then have "(2::int) ^ k \<le> 2 ^ (bits n - 1)" by (intro power_increasing) simp_all
  with bits_lower[OF assms(1)] assms(2) show False by linarith
qed

lemma expo_small:
  assumes "0 < x" and "x < 2 ^ 48"
  shows "expo x \<le> 47"
proof (cases "1 \<le> x")
  case True
  then have p: "0 < \<lfloor>x\<rfloor>" by simp
  have "\<lfloor>x\<rfloor> < 2 ^ 48" using assms(2) by (simp add: floor_less_iff)
  from bits_le[OF p this] True show ?thesis by (simp add: expo_def)
next
  case False
  then show ?thesis by (simp add: expo_def)
qed

lemma ulp_positive: "0 < ulp x"
  by (simp add: ulp_def scale_by_def)

lemma ulp_small:
  assumes "expo x \<le> 47"
  shows "ulp x = 1 / 2 ^ nat (52 - expo x)" and "ulp x \<le> 1 / 32"
proof -
  show u: "ulp x = 1 / 2 ^ nat (52 - expo x)" using assms by (simp add: ulp_def scale_by_def)
  have "5 \<le> nat (52 - expo x)" using assms by simp
  then have "(2::rat) ^ 5 \<le> 2 ^ nat (52 - expo x)" by (intro power_increasing) simp_all
  then have "1 / 2 ^ nat (52 - expo x) \<le> 1 / (2::rat) ^ 5" by (intro divide_left_mono) simp_all
  then show "ulp x \<le> 1 / 32" by (simp add: u)
qed

lemma rne_error: "\<bar>of_int (rne y) - y\<bar> \<le> 1 / 2"
proof -
  have "of_int \<lfloor>y\<rfloor> \<le> y" "y < of_int \<lfloor>y\<rfloor> + 1" by linarith+
  then show ?thesis by (auto simp: rne_def Let_def)
qed

lemma rne_of_int: "rne (of_int k) = k"
  by (simp add: rne_def)

lemma fl_error:
  assumes "0 < x"
  shows "\<bar>fl x - x\<bar> \<le> ulp x / 2"
proof -
  let ?u = "ulp x"
  have u: "0 < ?u" by (rule ulp_positive)
  have "fl x - x = (of_int (rne (x / ?u)) - x / ?u) * ?u"
    using assms u by (simp add: fl_def algebra_simps)
  then have "\<bar>fl x - x\<bar> = \<bar>of_int (rne (x / ?u)) - x / ?u\<bar> * ?u"
    using u by (simp add: abs_mult)
  also have "\<dots> \<le> (1 / 2) * ?u"
    using rne_error[of "x / ?u"] u by (intro mult_right_mono) simp_all
  finally show ?thesis by simp
qed

lemma fl_of_int:
  assumes "1 \<le> k" and "k < 2 ^ 48"
  shows "fl (of_int k) = of_int k"
proof -
  let ?x = "of_int k :: rat"
  have x: "0 < ?x" "?x < 2 ^ 48" using assms by simp_all
  have "?x < 2 ^ 48 \<longleftrightarrow> k < 2 ^ 48" by (metis of_int_less_numeral_power_cancel_iff)
  from expo_small[OF x] have e: "expo ?x \<le> 47" .
  let ?j = "nat (52 - expo ?x)"
  have u: "ulp ?x = 1 / 2 ^ ?j" by (rule ulp_small(1)[OF e])
  have "?x / ulp ?x = of_int (k * 2 ^ ?j)" by (simp add: u)
  then have "rne (?x / ulp ?x) = k * 2 ^ ?j" by (simp only: rne_of_int)
  then have "of_int (rne (?x / ulp ?x)) * ulp ?x = ?x" by (simp add: u)
  with x(1) show ?thesis by (simp add: fl_def)
qed

lemma floor_fl_div_60:
  assumes "0 \<le> n" and "n < 2 ^ 53"
  shows "\<lfloor>fl (of_int n / 60)\<rfloor> = n div 60"
proof -
  let ?q = "n div 60" and ?r = "n mod 60"
  let ?x = "of_int n / 60 :: rat"
  have n: "n = 60 * ?q + ?r" by simp
  have q: "0 \<le> ?q" "?q < 2 ^ 48" using assms by simp_all
  have r: "0 \<le> ?r" "?r < 60" by simp_all
  have e: "(of_int n :: rat) = 60 * of_int ?q + of_int ?r"
    by (metis n of_int_add of_int_mult of_int_numeral)
  have x: "?x = of_int ?q + of_int ?r / 60"
    by (subst e) (simp add: add_divide_distrib)
  show ?thesis
  proof (cases "?r = 0")
    case True
    then have xq: "?x = of_int ?q" by (simp add: x)
    show ?thesis
    proof (cases "?q = 0")
      case True
      then show ?thesis by (simp add: xq fl_def)
    next
      case False
      with q have "1 \<le> ?q" by simp
      from fl_of_int[OF this q(2)] show ?thesis by (simp add: xq)
    qed
  next
    case False
    with r have r1: "1 \<le> ?r" "?r \<le> 59" by simp_all
    have lo: "of_int ?q + 1 / 60 \<le> ?x"
      using r1(1) by (simp add: x)
    have hi: "?x \<le> of_int ?q + 59 / 60"
      using r1(2) by (simp add: x)
    have pos: "0 < ?x" using lo q(1) by (simp add: add_nonneg_pos)
    have "?x < of_int ?q + 1" using hi by simp
    also have "\<dots> \<le> 2 ^ 48" using q(2) by (metis of_int_add of_int_1 of_int_le_numeral_power_cancel_iff zless_imp_add1_zle)
    finally have small: "?x < 2 ^ 48" .
    from ulp_small(2)[OF expo_small[OF pos small]] fl_error[OF pos]
    have "\<bar>fl ?x - ?x\<bar> \<le> 1 / 64" by simp
    with lo hi have "of_int ?q \<le> fl ?x" "fl ?x < of_int ?q + 1" by linarith+
    then show ?thesis by (simp add: floor_unique)
  qed
qed

lemma decimal_digits: "0 \<le> n \<Longrightarrow> set (decimal n) \<subseteq> set ''0123456789''"
proof (induction n rule: decimal.induct)
  case (1 n)
  show ?case
  proof (cases "n < 10")
    case True
    with 1(2) have "nat n < 10" by simp
    from digit_char_in[OF this] True show ?thesis by (simp add: decimal_small)
  next
    case False
    have "nat (n mod 10) < 10" by simp
    then have "digit_char (nat (n mod 10)) \<in> set ''0123456789''" by (rule digit_char_in)
    moreover have "0 \<le> n div 10" using 1(2) by (simp add: pos_imp_zdiv_nonneg_iff)
    ultimately show ?thesis using False 1 by (simp add: decimal_step)
  qed
qed

lemma js_rem_nonneg: "0 \<le> a \<Longrightarrow> js_rem a 60 = a mod 60"
proof (cases "a = 0")
  case True
  then show ?thesis by (simp add: js_rem_def)
next
  case False
  assume "0 \<le> a"
  with False have "sgn a = 1" by simp
  then show ?thesis using \<open>0 \<le> a\<close> by (simp add: js_rem_def)
qed

lemma two_digits:
  assumes "0 \<le> n" and "n < 60"
  shows "padStart 2 (CHR ''0'') (decimal n) = [digit_char (nat (n div 10)), digit_char (nat (n mod 10))]"
proof (cases "n < 10")
  case True
  with assms(1) show ?thesis by (simp add: decimal_small padStart_def digit_char_def)
next
  case False
  then have "n div 10 < 10" using assms by simp
  with False show ?thesis by (simp add: decimal_step decimal_small padStart_def)
qed

lemma Number_toString_safe: "0 \<le> i \<Longrightarrow> i < 2 ^ 53 \<Longrightarrow> Number_toString i = decimal i"
  by (simp add: Number_toString_def Let_def)

lemma div_60_bounds:
  fixes k :: int
  assumes "0 \<le> k" and "k < 2 ^ 53"
  shows "0 \<le> k div 60 \<and> k div 60 < 2 ^ 53"
proof
  show "0 \<le> k div 60" using assms(1) by (simp add: pos_imp_zdiv_nonneg_iff)
  have "k div 60 \<le> k div 1" using assms(1) by (intro zdiv_mono2) simp_all
  with assms(2) show "k div 60 < 2 ^ 53" by simp
qed

lemma formatTime_safe:
  assumes "0 \<le> seconds" and "seconds < 2 ^ 53"
  shows "formatTime seconds =
           decimal \<lfloor>seconds / 60\<rfloor> @ '':'' @
           [digit_char (nat (\<lfloor>seconds\<rfloor> mod 60 div 10)), digit_char (nat (\<lfloor>seconds\<rfloor> mod 60 mod 10))]"
proof -
  let ?n = "\<lfloor>seconds\<rfloor>"
  have n: "0 \<le> ?n" "?n < 2 ^ 53" using assms by (simp_all add: floor_less_iff)
  have d: "\<lfloor>seconds / 60\<rfloor> = ?n div 60" by linarith
  have m: "\<lfloor>fl (of_int ?n / 60)\<rfloor> = ?n div 60" using n by (rule floor_fl_div_60)
  have mb: "0 \<le> ?n div 60" "?n div 60 < 2 ^ 53" using div_60_bounds[OF n] by simp_all
  have rb: "0 \<le> ?n mod 60" "?n mod 60 < 60" "?n mod 60 < 2 ^ 53" by simp_all
  have "formatTime seconds =
          Number_toString (?n div 60) @ '':'' @ padStart 2 (CHR ''0'') (Number_toString (?n mod 60))"
    using n(1) by (simp add: formatTime_def Let_def m js_rem_nonneg)
  also have "\<dots> = decimal (?n div 60) @ '':'' @ padStart 2 (CHR ''0'') (decimal (?n mod 60))"
    by (simp only: Number_toString_safe[OF mb] Number_toString_safe[OF rb(1,3)])
  finally show ?thesis by (simp add: d two_digits[OF rb(1,2)])
qed

text \<open>
  Claim C3, as amended. For a number of seconds that is not negative and is below
  \<open>2\<^sup>5\<^sup>3\<close>, \<open>formatTime\<close> is the decimal rendering of the floor of seconds / 60, a
  colon, and the two digits of the floor of the seconds modulo 60; the fraction is cut
  off, not rounded. It gives 0:00 at 0, 1:05 at 65, 9:59 at 599.9 and 2:05 at 125.7 (the
  doubles that these literals denote), and the timestamp of a shot prompt is the
  formatted start, \<open>'' - ''\<close> and the formatted end.
\<close>

theorem formatTime_spec:
  "(0 \<le> seconds \<and> seconds < 2 ^ 53 \<longrightarrow>
      formatTime seconds =
        decimal \<lfloor>seconds / 60\<rfloor> @ '':'' @
        [digit_char (nat (\<lfloor>seconds\<rfloor> mod 60 div 10)), digit_char (nat (\<lfloor>seconds\<rfloor> mod 60 mod 10))])
   \<and> formatTime 0 = ''0:00''
   \<and> formatTime 65 = ''1:05''
   \<and> formatTime (fl (5999 / 10)) = ''9:59''
   \<and> formatTime (fl (1257 / 10)) = ''2:05''
   \<and> timestamp (shot_of_scene sc) =
       formatTime (timestamp_start_seconds sc) @ '' - '' @ formatTime (timestamp_end_seconds sc)"
proof (intro conjI impI)
  assume "0 \<le> seconds \<and> seconds < 2 ^ 53"
  then show "formatTime seconds =
        decimal \<lfloor>seconds / 60\<rfloor> @ '':'' @
        [digit_char (nat (\<lfloor>seconds\<rfloor> mod 60 div 10)), digit_char (nat (\<lfloor>seconds\<rfloor> mod 60 mod 10))]"
    by (simp add: formatTime_safe)
next
  show "formatTime 0 = ''0:00''" by code_simp
next
  show "formatTime 65 = ''1:05''" by code_simp
next
  show "formatTime (fl (5999 / 10)) = ''9:59''" by code_simp
next
  show "formatTime (fl (1257 / 10)) = ''2:05''" by code_simp
next
  show "timestamp (shot_of_scene sc) =
       formatTime (timestamp_start_seconds sc) @ '' - '' @ formatTime (timestamp_end_seconds sc)"
    by (simp add: shot_of_scene_def)
qed

theorem formatTime_spec_witness:
  "(0::rat) \<le> 3725 / 2 \<and> (3725 / 2 :: rat) < 2 ^ 53 \<and> is_double (3725 / 2)
   \<and> formatTime (3725 / 2) = ''31:02''
   \<and> timestamp (shot_of_scene sample_cat) = ''0:08 - 0:10''"
proof -
  have d: "decimal 31 = ''31''" by code_simp
  have c: "digit_char 0 = CHR ''0''" "digit_char 2 = CHR ''2''" by code_simp+
  have s: "formatTime (timestamp_start_seconds sample_cat) = ''0:08''" by code_simp
  have e: "formatTime (timestamp_end_seconds sample_cat) = ''0:10''" by code_simp
  have b: "(0::rat) \<le> 3725 / 2 \<and> (3725 / 2 :: rat) < 2 ^ 53" by simp
  have i: "is_double (3725 / 2)" by code_simp
  have f: "\<lfloor>(3725 / 2 :: rat) / 60\<rfloor> = 31" "\<lfloor>3725 / 2 :: rat\<rfloor> mod 60 = 2"
    by code_simp+
  have "formatTime (3725 / 2) = decimal 31 @ '':'' @ [digit_char (nat (2 div 10)), digit_char (nat (2 mod 10))]"
    using formatTime_spec[of "3725 / 2" sample_cat] b unfolding f by blast
  moreover have "timestamp (shot_of_scene sample_cat) = ''0:08 - 0:10''"
    using formatTime_spec[of "3725 / 2" sample_cat] by (simp add: s e)
  ultimately show ?thesis using b i by (simp add: d c)
qed

text \<open>
  Claim C3 as stated fails for large numbers of seconds. At 67553994410557496, which
  is a double, the quotient by 60 is rounded up to the next double and the minutes are one
  more than the floor of seconds / 60; at \<open>6 \<times> 10\<^sup>2\<^sup>2\<close> the minutes are written in exponent
  form.
\<close>

theorem formatTime_counterexample:
  "is_double 67553994410557496
   \<and> formatTime 67553994410557496 = ''1125899906842625:56''
   \<and> decimal \<lfloor>(67553994410557496 :: rat) / 60\<rfloor> = ''1125899906842624''
   \<and> is_double (6 * 10 ^ 22)
   \<and> formatTime (6 * 10 ^ 22) = ''1e+21:00''"
  by code_simp

section \<open>The scene locator\<close>

lemma occurs_at_Suc: "occurs_at pat (c # cs) (Suc k) = occurs_at pat cs k"
  by (simp add: occurs_at_def)

lemma occurs_at_0: "occurs_at pat s 0 = startsWith s pat"
proof
  assume "startsWith s pat"
  then have t: "take (length pat) s = pat" by (simp add: startsWith_def)
  then have "length (take (length pat) s) = length pat" by simp
  then have "length pat \<le> length s" by simp
  with t show "occurs_at pat s 0" by (simp add: occurs_at_def)
qed (simp add: occurs_at_def startsWith_def)

lemma search_Some:
  "search pat s = Some k \<Longrightarrow> occurs_at pat s k \<and> (\<forall>j<k. \<not> occurs_at pat s j)"
proof (induction s arbitrary: k)
  case Nil
  then show ?case by (simp add: occurs_at_def split: if_splits)
next
  case (Cons c cs)
  show ?case
  proof (cases "startsWith (c # cs) pat")
    case True
    with Cons.prems show ?thesis by (simp add: occurs_at_0)
  next
    case False
    with Cons.prems obtain k' where k': "search pat cs = Some k'" "k = Suc k'"
      by auto
    from Cons.IH[OF k'(1)] have ih: "occurs_at pat cs k'" "\<And>j. j < k' \<Longrightarrow> \<not> occurs_at pat cs j"
      by auto
    have "\<not> occurs_at pat (c # cs) j" if "j < k" for j
    proof (cases j)
      case 0
      with False show ?thesis by (simp add: occurs_at_0)
    next
      case (Suc j')
      with that k'(2) ih(2)[of j'] show ?thesis by (simp add: occurs_at_Suc)
    qed
    with ih(1) k'(2) show ?thesis by (simp add: occurs_at_Suc)
  qed
qed

lemma search_None: "search pat s = None \<Longrightarrow> \<not> occurs_at pat s k"
proof (induction s arbitrary: k)
  case Nil
  then show ?case by (auto simp: occurs_at_def split: if_splits)
next
  case (Cons c cs)
  then have ns: "\<not> startsWith (c # cs) pat" and n: "search pat cs = None"
    by (auto split: if_splits)
  show ?case
  proof (cases k)
    case 0
    with ns show ?thesis by (simp add: occurs_at_0)
  next
    case (Suc k')
    with Cons.IH[OF n] show ?thesis by (simp add: occurs_at_Suc)
  qed
qed

lemma occurs_at_drop:
  "p \<le> length s \<Longrightarrow> occurs_at pat (drop p s) k = occurs_at pat s (p + k)"
  by (auto simp: occurs_at_def add.commute)

lemma occurs_at_single: "occurs_at [c] s k = (k < length s \<and> s ! k = c)"
proof (cases "k < length s")
  case True
  then have "drop k s = s ! k # drop (Suc k) s" by (simp add: Cons_nth_drop_Suc)
  with True show ?thesis by (simp add: occurs_at_def)
next
  case False
  then show ?thesis by (simp add: occurs_at_def)
qed

lemma indexOf_found:
  assumes "indexOf s pat p \<noteq> - 1" and "p \<le> length s"
  shows "\<exists>k. indexOf s pat p = int k \<and> p \<le> k \<and> occurs_at pat s k
             \<and> (\<forall>j. p \<le> j \<and> j < k \<longrightarrow> \<not> occurs_at pat s j)"
proof -
  from assms(1) obtain d where d: "search pat (drop p s) = Some d"
    by (auto simp: indexOf_def split: option.splits)
  from search_Some[OF d] have o: "occurs_at pat (drop p s) d"
    and l: "\<And>j. j < d \<Longrightarrow> \<not> occurs_at pat (drop p s) j" by auto
  have "\<not> occurs_at pat s j" if "p \<le> j" "j < p + d" for j
  proof -
    from that have "j - p < d" by simp
    from l[OF this] show ?thesis using assms(2) that(1) by (simp add: occurs_at_drop)
  qed
  moreover have "indexOf s pat p = int (p + d)"
    using d assms(2) by (simp add: indexOf_def min_def)
  moreover have "occurs_at pat s (p + d)"
    using o assms(2) by (simp add: occurs_at_drop)
  ultimately show ?thesis by (intro exI[of _ "p + d"]) auto
qed

lemma indexOf_absent:
  assumes "indexOf s pat p = - 1" and "p \<le> length s" and "p \<le> k"
  shows "\<not> occurs_at pat s k"
proof -
  from assms(1) have "search pat (drop p s) = None"
    by (auto simp: indexOf_def split: option.splits)
  from search_None[OF this, of "k - p"] show ?thesis
    using assms(2,3) by (simp add: occurs_at_drop)
qed

lemma sceneIdentifier_nonempty: "sceneIdentifier sid \<noteq> []"
  by (simp add: sceneIdentifier_def quoted_def)

text \<open>
  What the search of the handler computes when it runs: the span starts at the first
  offset at which the identifier occurs and ends at the first newline from there on, or
  at the end of the text; it finds the identifier wherever it occurs, whatever follows
  it. Without the textarea ref the search does not run.
\<close>

lemma locate_Some:
  assumes "locate textarea txt sid = Some (s, e)"
  shows "textarea"
    and "occurs_at (sceneIdentifier sid) txt s"
    and "\<forall>j<s. \<not> occurs_at (sceneIdentifier sid) txt j"
    and "s \<le> e" and "e \<le> length txt"
    and "\<forall>j. s \<le> j \<and> j < e \<longrightarrow> txt ! j \<noteq> CHR 0x0A"
    and "e < length txt \<longrightarrow> txt ! e = CHR 0x0A"
proof -
  let ?pat = "sceneIdentifier sid"
  from assms show t: "textarea" by (auto simp: locate_def split: if_splits)
  from assms have found: "indexOf txt ?pat 0 \<noteq> - 1"
    by (auto simp: locate_def Let_def split: if_splits)
  from indexOf_found[OF found] obtain k where k: "indexOf txt ?pat 0 = int k"
    "occurs_at ?pat txt k" "\<forall>j. 0 \<le> j \<and> j < k \<longrightarrow> \<not> occurs_at ?pat txt j"
    by auto
  from assms found k(1) have sk: "s = k"
    by (auto simp: locate_def Let_def split: if_splits)
  from k(2) have kl: "k + length ?pat \<le> length txt" by (simp add: occurs_at_def)
  then have kle: "k \<le> length txt" by simp
  show "occurs_at ?pat txt s" using k(2) sk by simp
  show "\<forall>j<s. \<not> occurs_at ?pat txt j" using k(3) sk by simp
  have "s \<le> e \<and> e \<le> length txt
        \<and> (\<forall>j. s \<le> j \<and> j < e \<longrightarrow> txt ! j \<noteq> CHR 0x0A)
        \<and> (e < length txt \<longrightarrow> txt ! e = CHR 0x0A)"
  proof (cases "indexOf txt [CHR 0x0A] k = - 1")
    case True
    with assms found k(1) have e: "e = length txt"
      by (auto simp: locate_def Let_def split: if_splits)
    have "txt ! j \<noteq> CHR 0x0A" if "k \<le> j" "j < length txt" for j
      using indexOf_absent[OF True kle that(1)] that(2) by (simp add: occurs_at_single)
    with e sk kle show ?thesis by simp
  next
    case False
    from indexOf_found[OF False kle] obtain n where n: "indexOf txt [CHR 0x0A] k = int n"
      "k \<le> n" "occurs_at [CHR 0x0A] txt n"
      "\<forall>j. k \<le> j \<and> j < n \<longrightarrow> \<not> occurs_at [CHR 0x0A] txt j"
      by auto
    from assms found k(1) n(1) have e: "e = n"
      by (auto simp: locate_def Let_def split: if_splits)
    from n(3) have nl: "n < length txt" "txt ! n = CHR 0x0A" by (simp_all add: occurs_at_single)
    have "txt ! j \<noteq> CHR 0x0A" if "k \<le> j" "j < n" for j
      using n(4) that nl(1) by (simp add: occurs_at_single)
    then show ?thesis using e sk nl n(2) by simp
  qed
  then show "s \<le> e" "e \<le> length txt"
    "\<forall>j. s \<le> j \<and> j < e \<longrightarrow> txt ! j \<noteq> CHR 0x0A" "e < length txt \<longrightarrow> txt ! e = CHR 0x0A"
    by blast+
qed

lemma locate_None:
  assumes "locate True txt sid = None"
  shows "\<not> occurs_at (sceneIdentifier sid) txt k"
proof (cases "txt = []")
  case True
  then show ?thesis using sceneIdentifier_nonempty[of sid] by (simp add: occurs_at_def)
next
  case False
  with assms have "indexOf txt (sceneIdentifier sid) 0 = - 1"
    by (auto simp: locate_def Let_def split: if_splits)
  from indexOf_absent[OF this] show ?thesis by simp
qed

lemma locate_finds:
  assumes "occurs_at (sceneIdentifier sid) txt k"
  shows "\<exists>s e. locate True txt sid = Some (s, e) \<and> s \<le> k"
proof (cases "locate True txt sid")
  case None
  from locate_None[OF this, of k] assms show ?thesis by simp
next
  case (Some span)
  obtain s e where span: "span = (s, e)" by (cases span)
  from locate_Some(3)[of "True" "txt" "sid" "s" "e"] Some span assms have "\<not> k < s" by auto
  with Some span show ?thesis by auto
qed

lemma locate_without_textarea: "locate False txt sid = None"
  by (simp add: locate_def)

text \<open>
  A prompt card is on the page only in the prompts tab, and the textarea only in the JSON
  tab. At every click that the page offers the textarea ref is therefore not set: the
  handler records the scene and seeks the video, and neither switches the tab nor selects
  a span. With the ref set it would select the span of the search.
\<close>

lemma click_with_textarea:
  assumes "textarea_mounted st" and "locate True (jsonOutput st) (scene_id sc) = Some (a, b)"
  shows "activeTab (fst (handleShotPromptClick st sc)) = Json"
    and "SetSelectionRange a b \<in> set (snd (handleShotPromptClick st sc))"
  using assms by (simp_all add: handleShotPromptClick_def Let_def)

lemma click_on_card:
  assumes "offered s (ClickShot sc)"
  shows "fst (handleShotPromptClick (app s) sc) = (app s)\<lparr>selectedSceneId := Some (scene_id sc)\<rparr>"
    and "SetSelectionRange a b \<notin> set (snd (handleShotPromptClick (app s) sc))"
  using assms
  by (simp_all add: handleShotPromptClick_def Let_def textarea_mounted_def locate_without_textarea)

lemma sample_ready_state:
  "jsonOutput (app sample_ready) = sample_json"
  "activeTab (app sample_ready) = Prompts"
  "\<not> isLoading (app sample_ready)"
  "videoUrl (app sample_ready) = Some ''blob:clip.mp4''"
  "map scene (shotPrompts (app sample_ready)) = [sample_street, sample_cat]"
  unfolding sample_ready_def by code_simp+

text \<open>
  Claim C4. The locator is to return the span of the identifier whenever the identifier
  occurs in the text. The handler does not: after the sample analysis the page shows the
  card of scene 10, whose identifier occurs in the text at offset 73, and the click on the
  card leaves the prompts tab in place and selects nothing, because the textarea ref is
  not set.
\<close>

theorem click_returns_no_span:
  "offered sample_ready (ClickShot sample_street)
   \<and> occurs_at (sceneIdentifier (scene_id sample_street)) (jsonOutput (app sample_ready)) 73
   \<and> locate True (jsonOutput (app sample_ready)) (scene_id sample_street) = Some (73, 88)
   \<and> \<not> textarea_mounted (app sample_ready)
   \<and> locate (textarea_mounted (app sample_ready)) (jsonOutput (app sample_ready))
        (scene_id sample_street) = None
   \<and> snd (handleShotPromptClick (app sample_ready) sample_street) = [SetCurrentTime 0, Play]
   \<and> activeTab (fst (handleShotPromptClick (app sample_ready) sample_street)) = Prompts"
proof -
  have ne: "sample_json \<noteq> []" by code_simp
  have off: "offered sample_ready (ClickShot sample_street)"
  proof -
    have "sample_street \<in> scene ` set (shotPrompts (app sample_ready))"
      using sample_ready_state(5) by (metis image_set list.set_intros(1))
    then show ?thesis using ne by (simp add: sample_ready_state result_shown_def)
  qed
  have o: "occurs_at (sceneIdentifier (scene_id sample_street)) sample_json 73" by code_simp
  have l: "locate True sample_json (scene_id sample_street) = Some (73, 88)" by code_simp
  have t: "\<not> textarea_mounted (app sample_ready)"
    by (simp add: textarea_mounted_def sample_ready_state)
  have v: "video_mounted (app sample_ready)"
    using ne by (simp add: video_mounted_def result_shown_def sample_ready_state)
  have h: "snd (handleShotPromptClick (app sample_ready) sample_street) = [SetCurrentTime 0, Play]"
    "activeTab (fst (handleShotPromptClick (app sample_ready) sample_street)) = Prompts"
    using t v
    by (simp_all add: handleShotPromptClick_def Let_def locate_without_textarea
                      sample_ready_state sample_street_def)
  from off o l t h show ?thesis by (simp add: sample_ready_state locate_without_textarea)
qed


section \<open>Prompt synthesis\<close>

lemma prompt_effect_parsed:
  assumes "jsonOutput st \<noteq> []" and "JSON_parse env (jsonOutput st) = Inr analysis"
  shows "shotPrompts (prompt_effect env st) = map shot_of_scene (scenes analysis)"
  using assms by (simp add: prompt_effect_def)

text \<open>
  Claim C1. When the JSON text parses to a document, the effect leaves one prompt for each
  scene, in the order of the scenes: the scenes of the prompts are the scenes of the
  document, and the ids of the prompts are the ids of the scenes, position by position.
  Nothing is merged, reordered or removed, so scenes with one id give a prompt each.
\<close>

theorem synthesis_one_prompt_per_scene:
  assumes "jsonOutput st \<noteq> []" and "JSON_parse env (jsonOutput st) = Inr analysis"
  shows "length (shotPrompts (prompt_effect env st)) = length (scenes analysis)
       \<and> map scene (shotPrompts (prompt_effect env st)) = scenes analysis
       \<and> map shot_id (shotPrompts (prompt_effect env st)) = map scene_id (scenes analysis)
       \<and> (\<forall>i<length (scenes analysis).
             shot_id (shotPrompts (prompt_effect env st) ! i) = scene_id (scenes analysis ! i))"
proof -
  have p: "shotPrompts (prompt_effect env st) = map shot_of_scene (scenes analysis)"
    using assms by (rule prompt_effect_parsed)
  have "map scene (map shot_of_scene xs) = xs" for xs
    by (induction xs) (simp_all add: shot_of_scene_def)
  moreover have "map shot_id (map shot_of_scene xs) = map scene_id xs" for xs
    by (induction xs) (simp_all add: shot_of_scene_def)
  ultimately show ?thesis
    unfolding p by (simp add: shot_of_scene_def)
qed

theorem synthesis_one_prompt_per_scene_witness:
  "map shot_id (shotPrompts (prompt_effect sample_platform (initial_state\<lparr>jsonOutput := sample_json\<rparr>)))
     = [10, 1]
   \<and> map shot_id (shotPrompts (prompt_effect (sample_platform\<lparr>JSON_parse := \<lambda>t. Inr sample_twins\<rparr>)
                                  (initial_state\<lparr>jsonOutput := ''{}''\<rparr>)))
     = [1, 1]"
proof -
  have ne: "sample_json \<noteq> []" by code_simp
  have "map shot_id (shotPrompts (prompt_effect sample_platform (initial_state\<lparr>jsonOutput := sample_json\<rparr>)))
      = map scene_id (scenes sample_analysis)"
    using synthesis_one_prompt_per_scene
            [of "initial_state\<lparr>jsonOutput := sample_json\<rparr>" sample_platform sample_analysis] ne
    by (simp add: sample_platform_def)
  moreover have "map shot_id (shotPrompts (prompt_effect (sample_platform\<lparr>JSON_parse := \<lambda>t. Inr sample_twins\<rparr>)
                                  (initial_state\<lparr>jsonOutput := ''{}''\<rparr>)))
      = map scene_id (scenes sample_twins)"
    using synthesis_one_prompt_per_scene
            [of "initial_state\<lparr>jsonOutput := ''{}''\<rparr>"
                "sample_platform\<lparr>JSON_parse := \<lambda>t. Inr sample_twins\<rparr>" sample_twins]
    by simp
  ultimately show ?thesis
    by (simp add: sample_analysis_def sample_twins_def sample_street_def sample_cat_def)
qed



section \<open>What the effect and the progress callback leave alone\<close>

lemma setProgress_fields:
  "jsonOutput (setProgress st x) = jsonOutput st"
  "error (setProgress st x) = error st"
  "isLoading (setProgress st x) = isLoading st"
  "shotPrompts (setProgress st x) = shotPrompts st"
  by (cases x; simp)+

lemma foldl_setProgress_fields:
  "jsonOutput (foldl setProgress st xs) = jsonOutput st"
  "error (foldl setProgress st xs) = error st"
  "isLoading (foldl setProgress st xs) = isLoading st"
  "shotPrompts (foldl setProgress st xs) = shotPrompts st"
  by (induction xs arbitrary: st; simp add: setProgress_fields)+

lemma prompt_effect_fields:
  "jsonOutput (prompt_effect env st) = jsonOutput st"
  "error (prompt_effect env st) = error st"
  "isLoading (prompt_effect env st) = isLoading st"
  "videoFile (prompt_effect env st) = videoFile st"
  by (simp_all add: prompt_effect_def split: sum.split)

lemma rerender_fields:
  "jsonOutput (rerender env old new) = jsonOutput new"
  "error (rerender env old new) = error new"
  "isLoading (rerender env old new) = isLoading new"
  "videoFile (rerender env old new) = videoFile new"
  by (simp_all add: rerender_def prompt_effect_fields)

section \<open>The analysis client\<close>

lemma analyze_no_key:
  assumes "API_KEY env = None \<or> API_KEY env = Some []"
  shows "analyzeVideoWithGemini env f = ([], Inl (Error ''API_KEY environment variable not set.''))"
  using assms by (auto simp: analyzeVideoWithGemini_def)

lemma analyze_requested:
  assumes "API_KEY env = Some key" and "key \<noteq> []" and "fileToBase64 env f = Inr d"
  shows "fst (analyzeVideoWithGemini env f) =
           [ReadFile f,
            Progress ''Uploading and analyzing with Gemini AI... This may take a moment.'',
            RemoteRequest (file_type f) d]"
    and "snd (analyzeVideoWithGemini env f) =
           (case generateContent env (file_type f) d of
              Inl e \<Rightarrow> Inl e
            | Inr jsonText \<Rightarrow>
                (case JSON_parse env jsonText of
                   Inr parsedJson \<Rightarrow> Inr (JSON_stringify env parsedJson 2)
                 | Inl e \<Rightarrow> Inr jsonText))"
  using assms by (simp_all add: analyzeVideoWithGemini_def Let_def split: sum.split)

lemma analyze_request_inversion:
  assumes "RemoteRequest m d \<in> set (fst (analyzeVideoWithGemini env f))"
  shows "\<exists>key. API_KEY env = Some key \<and> key \<noteq> [] \<and> fileToBase64 env f = Inr d"
proof (cases "API_KEY env = None \<or> API_KEY env = Some []")
  case True
  with assms show ?thesis by (simp add: analyze_no_key)
next
  case False
  then obtain key where key: "API_KEY env = Some key" "key \<noteq> []" by auto
  show ?thesis
  proof (cases "fileToBase64 env f")
    case (Inl e)
    with assms False show ?thesis by (simp add: analyzeVideoWithGemini_def)
  next
    case (Inr d')
    from analyze_requested(1)[OF key Inr] assms have "d = d'" by simp
    with key Inr show ?thesis by simp
  qed
qed

lemma resume_rejected:
  assumes "snd settled = Inl err"
  shows "error (handleFileUpload_resume settled st) =
           Some (case err of
                   Error message \<Rightarrow> message
                 | NonError v \<Rightarrow> ''An unknown error occurred during analysis.'')"
    and "\<not> isLoading (handleFileUpload_resume settled st)"
    and "jsonOutput (handleFileUpload_resume settled st) = jsonOutput (foldl setProgress st (fst settled))"
  using assms by (simp_all add: handleFileUpload_resume_def Let_def)

lemma handleFileUpload_rejected:
  assumes "startsWith (file_type f) ''video/''" and "snd (analyzeVideoWithGemini env f) = Inl err"
  shows "error (handleFileUpload env f st) =
           Some (case err of
                   Error message \<Rightarrow> message
                 | NonError v \<Rightarrow> ''An unknown error occurred during analysis.'')"
    and "\<not> isLoading (handleFileUpload env f st)"
    and "jsonOutput (handleFileUpload env f st) = []"
proof -
  define st2 where
    "st2 = rerender env st (st\<lparr>videoFile := Some f, videoUrl := Some (createObjectURL env f), error := None,
            isLoading := True, jsonOutput := [],
            progressMessage := ''Preparing video for analysis...''\<rparr>)"
  have h: "handleFileUpload env f st =
             rerender env st2 (handleFileUpload_resume (analyzeVideoWithGemini env f) st2)"
    using assms(1) by (simp add: handleFileUpload_def handleFileUpload_begin_def st2_def Let_def)
  have j: "jsonOutput st2 = []" by (simp add: st2_def rerender_fields)
  note r = resume_rejected[OF assms(2)]
  show "error (handleFileUpload env f st) =
           Some (case err of
                   Error message \<Rightarrow> message
                 | NonError v \<Rightarrow> ''An unknown error occurred during analysis.'')"
    by (simp add: h rerender_fields r(1))
  show "\<not> isLoading (handleFileUpload env f st)"
    by (simp add: h rerender_fields r(2))
  show "jsonOutput (handleFileUpload env f st) = []"
    by (simp add: h rerender_fields r(3) foldl_setProgress_fields j)
qed

text \<open>
  Claim C6, as amended. Without an API key the client throws, and has by then neither
  read the file nor made a request. A rejection of the remote call is the client's own
  outcome, unchanged, after one request. When the client throws an \<^verbatim>\<open>Error\<close>, the
  handler ends with that error's message in the state, not loading and with no result;
  when it throws a value that is not an \<^verbatim>\<open>Error\<close>, the handler ends in the same way
  with its fixed message in place of the value.
\<close>

theorem analyze_errors:
  "(API_KEY env = None \<or> API_KEY env = Some [] \<longrightarrow>
      analyzeVideoWithGemini env f = ([], Inl (Error ''API_KEY environment variable not set.'')))
   \<and> (API_KEY env = Some key \<and> key \<noteq> [] \<and> fileToBase64 env f = Inr d
        \<and> generateContent env (file_type f) d = Inl e \<longrightarrow>
        snd (analyzeVideoWithGemini env f) = Inl e
        \<and> length (filter is_request (fst (analyzeVideoWithGemini env f))) = 1)
   \<and> (startsWith (file_type f) ''video/''
        \<and> snd (analyzeVideoWithGemini env f) = Inl (Error message) \<longrightarrow>
        error (handleFileUpload env f st) = Some message
        \<and> \<not> isLoading (handleFileUpload env f st)
        \<and> jsonOutput (handleFileUpload env f st) = [])
   \<and> (startsWith (file_type f) ''video/''
        \<and> snd (analyzeVideoWithGemini env f) = Inl (NonError v) \<longrightarrow>
        error (handleFileUpload env f st) = Some ''An unknown error occurred during analysis.''
        \<and> \<not> isLoading (handleFileUpload env f st)
        \<and> jsonOutput (handleFileUpload env f st) = [])"
proof (intro conjI impI)
  assume "API_KEY env = None \<or> API_KEY env = Some []"
  then show "analyzeVideoWithGemini env f = ([], Inl (Error ''API_KEY environment variable not set.''))"
    by (rule analyze_no_key)
next
  assume a: "API_KEY env = Some key \<and> key \<noteq> [] \<and> fileToBase64 env f = Inr d
        \<and> generateContent env (file_type f) d = Inl e"
  then have k: "API_KEY env = Some key" "key \<noteq> []" "fileToBase64 env f = Inr d" by simp_all
  show "snd (analyzeVideoWithGemini env f) = Inl e"
    using a by (simp add: analyze_requested(2)[OF k])
  show "length (filter is_request (fst (analyzeVideoWithGemini env f))) = 1"
    by (simp add: analyze_requested(1)[OF k])
next
  assume a: "startsWith (file_type f) ''video/''
        \<and> snd (analyzeVideoWithGemini env f) = Inl (Error message)"
  then have v: "startsWith (file_type f) ''video/''"
    and r: "snd (analyzeVideoWithGemini env f) = Inl (Error message)" by simp_all
  show "error (handleFileUpload env f st) = Some message"
    by (simp add: handleFileUpload_rejected(1)[OF v r])
  show "\<not> isLoading (handleFileUpload env f st)"
    by (rule handleFileUpload_rejected(2)[OF v r])
  show "jsonOutput (handleFileUpload env f st) = []"
    by (rule handleFileUpload_rejected(3)[OF v r])
next
  assume a: "startsWith (file_type f) ''video/''
        \<and> snd (analyzeVideoWithGemini env f) = Inl (NonError v)"
  then have v: "startsWith (file_type f) ''video/''"
    and r: "snd (analyzeVideoWithGemini env f) = Inl (NonError v)" by simp_all
  show "error (handleFileUpload env f st) = Some ''An unknown error occurred during analysis.''"
    by (simp add: handleFileUpload_rejected(1)[OF v r])
  show "\<not> isLoading (handleFileUpload env f st)"
    by (rule handleFileUpload_rejected(2)[OF v r])
  show "jsonOutput (handleFileUpload env f st) = []"
    by (rule handleFileUpload_rejected(3)[OF v r])
qed

theorem analyze_errors_witness:
  "analyzeVideoWithGemini (sample_platform\<lparr>API_KEY := None\<rparr>) sample_file
     = ([], Inl (Error ''API_KEY environment variable not set.''))
   \<and> snd (analyzeVideoWithGemini
             (sample_platform\<lparr>generateContent := \<lambda>mimeType data. Inl (Error ''rate limited'')\<rparr>)
             sample_file) = Inl (Error ''rate limited'')
   \<and> error (handleFileUpload
               (sample_platform\<lparr>generateContent := \<lambda>mimeType data. Inl (Error ''rate limited'')\<rparr>)
               sample_file initial_state) = Some ''rate limited''
   \<and> error (handleFileUpload
               (sample_platform\<lparr>readAsDataURL := \<lambda>f. None\<rparr>)
               sample_file initial_state) = Some ''An unknown error occurred during analysis.''"
proof -
  let ?limited = "sample_platform\<lparr>generateContent := \<lambda>mimeType data. Inl (Error ''rate limited'')\<rparr>"
  let ?unread = "sample_platform\<lparr>readAsDataURL := \<lambda>f. None\<rparr>"
  have k: "API_KEY ?limited = Some ''key'' \<and> ''key'' \<noteq> []
           \<and> fileToBase64 ?limited sample_file = Inr ''AAAA''
           \<and> generateContent ?limited (file_type sample_file) ''AAAA'' = Inl (Error ''rate limited'')"
    by (simp add: sample_platform_def fileToBase64_def)
  have v: "startsWith (file_type sample_file) ''video/''"
    by (simp add: sample_file_def startsWith_def)
  have u: "snd (analyzeVideoWithGemini ?unread sample_file) = Inl (NonError ''ProgressEvent'')"
    by (simp add: analyzeVideoWithGemini_def sample_platform_def fileToBase64_def)
  have 1: "analyzeVideoWithGemini (sample_platform\<lparr>API_KEY := None\<rparr>) sample_file
     = ([], Inl (Error ''API_KEY environment variable not set.''))"
    using analyze_errors[of "sample_platform\<lparr>API_KEY := None\<rparr>" sample_file] by simp
  have 2: "snd (analyzeVideoWithGemini ?limited sample_file) = Inl (Error ''rate limited'')"
    using analyze_errors[of ?limited sample_file "''key''" "''AAAA''" "Error ''rate limited''"] k
    by blast
  have 3: "error (handleFileUpload ?limited sample_file initial_state) = Some ''rate limited''"
    using analyze_errors[of ?limited sample_file _ _ _ "''rate limited''" initial_state] v 2
    by blast
  have 4: "error (handleFileUpload ?unread sample_file initial_state)
             = Some ''An unknown error occurred during analysis.''"
    using analyze_errors[of ?unread sample_file _ _ _ _ initial_state "''ProgressEvent''"] v u
    by blast
  from 1 2 3 4 show ?thesis by blast
qed

text \<open>
  Claim C6 as stated fails: a remote call that rejects with the string \<open>rate limited\<close>,
  which is not an \<^verbatim>\<open>Error\<close>, is passed on unchanged by the client, and the handler
  shows its fixed message, not \<open>rate limited\<close>.
\<close>

theorem error_message_counterexample:
  "snd (analyzeVideoWithGemini
          (sample_platform\<lparr>generateContent := \<lambda>mimeType data. Inl (NonError ''rate limited'')\<rparr>)
          sample_file) = Inl (NonError ''rate limited'')
   \<and> error (handleFileUpload
               (sample_platform\<lparr>generateContent := \<lambda>mimeType data. Inl (NonError ''rate limited'')\<rparr>)
               sample_file initial_state) = Some ''An unknown error occurred during analysis.''
   \<and> error (handleFileUpload
               (sample_platform\<lparr>generateContent := \<lambda>mimeType data. Inl (NonError ''rate limited'')\<rparr>)
               sample_file initial_state) \<noteq> Some ''rate limited''"
  by code_simp

text \<open>
  Claim C7. Once the remote model has answered with a text, the client returns the
  document written by \<^verbatim>\<open>JSON.stringify\<close> with indentation 2 when the text parses, and
  the text itself, unchanged, when it does not; in both cases it returns and does not throw.
\<close>

theorem analyze_result:
  "API_KEY env = Some key \<and> key \<noteq> [] \<and> fileToBase64 env f = Inr d
   \<and> generateContent env (file_type f) d = Inr jsonText \<longrightarrow>
     (\<forall>document. JSON_parse env jsonText = Inr document \<longrightarrow>
         snd (analyzeVideoWithGemini env f) = Inr (JSON_stringify env document 2))
     \<and> (\<forall>e. JSON_parse env jsonText = Inl e \<longrightarrow> snd (analyzeVideoWithGemini env f) = Inr jsonText)
     \<and> (\<exists>result. snd (analyzeVideoWithGemini env f) = Inr result)"
proof
  assume a: "API_KEY env = Some key \<and> key \<noteq> [] \<and> fileToBase64 env f = Inr d
   \<and> generateContent env (file_type f) d = Inr jsonText"
  then have k: "API_KEY env = Some key" "key \<noteq> []" "fileToBase64 env f = Inr d" by simp_all
  from a have s: "snd (analyzeVideoWithGemini env f) =
      (case JSON_parse env jsonText of
         Inr parsedJson \<Rightarrow> Inr (JSON_stringify env parsedJson 2)
       | Inl e \<Rightarrow> Inr jsonText)"
    by (simp add: analyze_requested(2)[OF k])
  show "(\<forall>document. JSON_parse env jsonText = Inr document \<longrightarrow>
         snd (analyzeVideoWithGemini env f) = Inr (JSON_stringify env document 2))
     \<and> (\<forall>e. JSON_parse env jsonText = Inl e \<longrightarrow> snd (analyzeVideoWithGemini env f) = Inr jsonText)
     \<and> (\<exists>result. snd (analyzeVideoWithGemini env f) = Inr result)"
    unfolding s by (cases "JSON_parse env jsonText") simp_all
qed

theorem analyze_result_witness:
  "snd (analyzeVideoWithGemini sample_platform sample_file) = Inr sample_json
   \<and> snd (analyzeVideoWithGemini (sample_platform\<lparr>generateContent := \<lambda>mimeType data. Inr ''<html>''\<rparr>)
            sample_file) = Inr ''<html>''"
proof -
  let ?html = "sample_platform\<lparr>generateContent := \<lambda>mimeType data. Inr ''<html>''\<rparr>"
  have ne: "''<html>'' \<noteq> sample_json" by code_simp
  have k: "API_KEY sample_platform = Some ''key'' \<and> ''key'' \<noteq> []
           \<and> fileToBase64 sample_platform sample_file = Inr ''AAAA''
           \<and> generateContent sample_platform (file_type sample_file) ''AAAA'' = Inr sample_json"
    by (simp add: sample_platform_def fileToBase64_def)
  have p: "JSON_parse sample_platform sample_json = Inr sample_analysis"
    "JSON_stringify sample_platform sample_analysis 2 = sample_json"
    by (simp_all add: sample_platform_def)
  have k': "API_KEY ?html = Some ''key'' \<and> ''key'' \<noteq> []
           \<and> fileToBase64 ?html sample_file = Inr ''AAAA''
           \<and> generateContent ?html (file_type sample_file) ''AAAA'' = Inr ''<html>''"
    by (simp add: sample_platform_def fileToBase64_def)
  have p': "JSON_parse ?html ''<html>'' = Inl (Error ''Unexpected token'')"
    using ne by (simp add: sample_platform_def)
  have "snd (analyzeVideoWithGemini sample_platform sample_file) = Inr sample_json"
    using analyze_result[of sample_platform "''key''" sample_file "''AAAA''" sample_json] k p
    by metis
  moreover have "snd (analyzeVideoWithGemini ?html sample_file) = Inr ''<html>''"
    using analyze_result[of ?html "''key''" sample_file "''AAAA''" "''<html>''"] k' p'
    by blast
  ultimately show ?thesis by blast
qed

text \<open>
  Claim C8, as amended. A call of the client that reaches the remote request calls the
  progress callback exactly once, after it has read the file and before it sends the
  request. The message shown before that is set by the upload handler, by a call of its
  own before it calls the client.
\<close>

theorem progress_callback_once:
  "((\<exists>mimeType data. RemoteRequest mimeType data \<in> set (fst (analyzeVideoWithGemini env f))) \<longrightarrow>
      (\<exists>data. fst (analyzeVideoWithGemini env f) =
                 [ReadFile f,
                  Progress ''Uploading and analyzing with Gemini AI... This may take a moment.'',
                  RemoteRequest (file_type f) data])
      \<and> length (filter is_progress (fst (analyzeVideoWithGemini env f))) = 1)
   \<and> (snd (handleFileUpload_begin env f st) \<longrightarrow>
        progressMessage (fst (handleFileUpload_begin env f st)) = ''Preparing video for analysis...'')"
proof (intro conjI impI)
  assume "\<exists>mimeType data. RemoteRequest mimeType data \<in> set (fst (analyzeVideoWithGemini env f))"
  then obtain m d where "RemoteRequest m d \<in> set (fst (analyzeVideoWithGemini env f))" by blast
  from analyze_request_inversion[OF this] obtain key
    where k: "API_KEY env = Some key" "key \<noteq> []" "fileToBase64 env f = Inr d" by blast
  note t = analyze_requested(1)[OF k]
  show "\<exists>data. fst (analyzeVideoWithGemini env f) =
                 [ReadFile f,
                  Progress ''Uploading and analyzing with Gemini AI... This may take a moment.'',
                  RemoteRequest (file_type f) data]"
    using t by - (rule exI, assumption)
  show "length (filter is_progress (fst (analyzeVideoWithGemini env f))) = 1"
    by (simp add: t)
next
  assume "snd (handleFileUpload_begin env f st)"
  then show "progressMessage (fst (handleFileUpload_begin env f st)) = ''Preparing video for analysis...''"
    by (simp add: handleFileUpload_begin_def split: if_splits)
qed

theorem progress_callback_once_witness:
  "RemoteRequest ''video/mp4'' ''AAAA'' \<in> set (fst (analyzeVideoWithGemini sample_platform sample_file))
   \<and> length (filter is_progress (fst (analyzeVideoWithGemini sample_platform sample_file))) = 1
   \<and> snd (handleFileUpload_begin sample_platform sample_file initial_state)
   \<and> progressMessage (fst (handleFileUpload_begin sample_platform sample_file initial_state))
       = ''Preparing video for analysis...''"
proof -
  have r: "RemoteRequest ''video/mp4'' ''AAAA'' \<in> set (fst (analyzeVideoWithGemini sample_platform sample_file))"
    by (simp add: analyzeVideoWithGemini_def sample_platform_def sample_file_def fileToBase64_def)
  have b: "snd (handleFileUpload_begin sample_platform sample_file initial_state)"
    by (simp add: handleFileUpload_begin_def sample_file_def startsWith_def)
  from progress_callback_once[of sample_platform sample_file initial_state] r b
  show ?thesis by blast
qed

text \<open>
  Claim C8 as stated fails: on the sample call, which reaches the remote request, the
  callback is not called twice.
\<close>

theorem progress_callback_counterexample:
  "RemoteRequest ''video/mp4'' ''AAAA'' \<in> set (fst (analyzeVideoWithGemini sample_platform sample_file))
   \<and> \<not> 2 \<le> length (filter is_progress (fst (analyzeVideoWithGemini sample_platform sample_file)))"
  by (simp add: analyzeVideoWithGemini_def sample_platform_def sample_file_def fileToBase64_def)

section \<open>The prompt list as a projection of the JSON text\<close>

lemma prompt_effect_projection:
  "shotPrompts (prompt_effect env st) = prompts_of_text env (jsonOutput st)"
  by (simp add: prompt_effect_def prompts_of_text_def split: sum.split)

lemma rerender_projection:
  assumes "shotPrompts old = prompts_of_text env (jsonOutput old)"
    and "jsonOutput new = jsonOutput old \<Longrightarrow> shotPrompts new = shotPrompts old"
  shows "shotPrompts (rerender env old new) = prompts_of_text env (jsonOutput new)"
  using assms by (simp add: rerender_def prompt_effect_projection)

lemma resume_shotPrompts:
  "shotPrompts (handleFileUpload_resume settled st) = shotPrompts st"
  by (simp add: handleFileUpload_resume_def Let_def foldl_setProgress_fields split: sum.split)

lemma click_fields:
  "shotPrompts (fst (handleShotPromptClick st sc)) = shotPrompts st"
  "jsonOutput (fst (handleShotPromptClick st sc)) = jsonOutput st"
  "isLoading (fst (handleShotPromptClick st sc)) = isLoading st"
  "error (fst (handleShotPromptClick st sc)) = error st"
  "videoFile (fst (handleShotPromptClick st sc)) = videoFile st"
  by (simp_all add: handleShotPromptClick_def Let_def split: option.split)

lemma step_projection:
  assumes "shotPrompts (app s) = prompts_of_text env (jsonOutput (app s))"
  shows "shotPrompts (app (step env s e)) = prompts_of_text env (jsonOutput (app (step env s e)))"
proof (cases e)
  case (UploadFile f)
  obtain st started where b: "handleFileUpload_begin env f (app s) = (st, started)"
    by (cases "handleFileUpload_begin env f (app s)")
  then have "shotPrompts st = shotPrompts (app s)"
    by (auto simp: handleFileUpload_begin_def split: if_splits)
  with assms have "shotPrompts (rerender env (app s) st) = prompts_of_text env (jsonOutput st)"
    by (intro rerender_projection) simp_all
  with UploadFile b show ?thesis by (simp add: rerender_fields)
next
  case (AnalysisSettles i)
  show ?thesis
  proof (cases "i < length (pending s)")
    case True
    let ?new = "handleFileUpload_resume (analyzeVideoWithGemini env (pending s ! i)) (app s)"
    from assms have "shotPrompts (rerender env (app s) ?new) = prompts_of_text env (jsonOutput ?new)"
      by (intro rerender_projection) (simp_all add: resume_shotPrompts)
    with AnalysisSettles True show ?thesis by (simp add: rerender_fields)
  next
    case False
    with AnalysisSettles assms show ?thesis by simp
  qed
next
  case Reset
  have j: "jsonOutput (handleReset (app s)) = []" and p: "shotPrompts (handleReset (app s)) = []"
    by (simp_all add: handleReset_def)
  have "shotPrompts (rerender env (app s) (handleReset (app s)))
          = prompts_of_text env (jsonOutput (handleReset (app s)))"
  proof (rule rerender_projection[OF assms])
    assume "jsonOutput (handleReset (app s)) = jsonOutput (app s)"
    with j assms have "shotPrompts (app s) = []" by (simp add: prompts_of_text_def)
    with p show "shotPrompts (handleReset (app s)) = shotPrompts (app s)" by simp
  qed
  with Reset show ?thesis by (simp add: rerender_fields)
next
  case (EditJson t)
  from assms have "shotPrompts (rerender env (app s) ((app s)\<lparr>jsonOutput := t\<rparr>))
          = prompts_of_text env (jsonOutput ((app s)\<lparr>jsonOutput := t\<rparr>))"
    by (intro rerender_projection) simp_all
  with EditJson show ?thesis by (simp add: rerender_fields)
next
  case FormatJson
  have "shotPrompts (handleFormatJson env (app s)) = shotPrompts (app s)"
    by (simp add: handleFormatJson_def split: sum.split)
  with assms have "shotPrompts (rerender env (app s) (handleFormatJson env (app s)))
          = prompts_of_text env (jsonOutput (handleFormatJson env (app s)))"
    by (intro rerender_projection) simp_all
  with FormatJson show ?thesis by (simp add: rerender_fields)
next
  case (SetActiveTab t)
  with assms show ?thesis by simp
next
  case (ClickShot sc)
  with assms show ?thesis by (simp add: click_fields)
qed

lemma exec_snoc: "exec env s (es @ [e]) = step env (exec env s es) e"
  by (simp add: exec_def)

lemma exec_projection:
  "shotPrompts (app (exec env initial_session es))
     = prompts_of_text env (jsonOutput (app (exec env initial_session es)))"
proof (induction es rule: rev_induct)
  case Nil
  show ?case by (simp add: exec_def initial_session_def initial_state_def prompts_of_text_def)
next
  case (snoc e es)
  then show ?case unfolding exec_snoc by (rule step_projection)
qed

text \<open>
  Claim C5. In every state that a session reaches, the prompt list is the projection of
  the JSON text of that state. After an edit of the text, whatever the text, the state
  holds the new text, the prompt list is the projection of the new text, and the error of
  the state is what it was. The projection is empty for the empty text and for a text
  that does not parse, and is the synthesis of the document otherwise.
\<close>

theorem prompts_follow_text:
  "shotPrompts (app (exec env initial_session es))
     = prompts_of_text env (jsonOutput (app (exec env initial_session es)))
   \<and> jsonOutput (app (exec env initial_session (es @ [EditJson text]))) = text
   \<and> shotPrompts (app (exec env initial_session (es @ [EditJson text]))) = prompts_of_text env text
   \<and> error (app (exec env initial_session (es @ [EditJson text])))
       = error (app (exec env initial_session es))
   \<and> prompts_of_text env [] = []
   \<and> (JSON_parse env text = Inl e \<longrightarrow> prompts_of_text env text = [])
   \<and> (text \<noteq> [] \<and> JSON_parse env text = Inr analysis \<longrightarrow>
        prompts_of_text env text = map shot_of_scene (scenes analysis))"
proof (intro conjI impI)
  show "shotPrompts (app (exec env initial_session es))
     = prompts_of_text env (jsonOutput (app (exec env initial_session es)))"
    by (rule exec_projection)
next
  show j: "jsonOutput (app (exec env initial_session (es @ [EditJson text]))) = text"
    by (simp add: exec_snoc rerender_fields)
  show "shotPrompts (app (exec env initial_session (es @ [EditJson text]))) = prompts_of_text env text"
    using exec_projection[of env "es @ [EditJson text]"] j by simp
next
  show "error (app (exec env initial_session (es @ [EditJson text])))
       = error (app (exec env initial_session es))"
    by (simp add: exec_snoc rerender_fields)
next
  show "prompts_of_text env [] = []" by (simp add: prompts_of_text_def)
next
  assume "JSON_parse env text = Inl e"
  then show "prompts_of_text env text = []" by (simp add: prompts_of_text_def)
next
  assume "text \<noteq> [] \<and> JSON_parse env text = Inr analysis"
  then show "prompts_of_text env text = map shot_of_scene (scenes analysis)"
    by (simp add: prompts_of_text_def)
qed

theorem prompts_follow_text_witness:
  "map timestamp (shotPrompts (app (exec sample_platform initial_session
                                      [UploadFile sample_file, AnalysisSettles 0])))
     = [''0:00 - 0:08'', ''0:08 - 0:10'']
   \<and> JSON_parse sample_platform ''{ broken'' = Inl (Error ''Unexpected token'')
   \<and> jsonOutput (app (exec sample_platform initial_session
                         ([UploadFile sample_file, AnalysisSettles 0] @ [EditJson ''{ broken'']))) = ''{ broken''
   \<and> shotPrompts (app (exec sample_platform initial_session
                         ([UploadFile sample_file, AnalysisSettles 0] @ [EditJson ''{ broken'']))) = []
   \<and> error (app (exec sample_platform initial_session
                         ([UploadFile sample_file, AnalysisSettles 0] @ [EditJson ''{ broken'']))) = None
   \<and> jsonOutput (app (exec (sample_platform\<lparr>generateContent := \<lambda>mimeType data. Inr ''<html>''\<rparr>)
                         initial_session [UploadFile sample_file, AnalysisSettles 0])) = ''<html>''
   \<and> shotPrompts (app (exec (sample_platform\<lparr>generateContent := \<lambda>mimeType data. Inr ''<html>''\<rparr>)
                         initial_session [UploadFile sample_file, AnalysisSettles 0])) = []"
proof -
  let ?es = "[UploadFile sample_file, AnalysisSettles 0]"
  let ?html = "sample_platform\<lparr>generateContent := \<lambda>mimeType data. Inr ''<html>''\<rparr>"
  have ne: "''{ broken'' \<noteq> sample_json" "''<html>'' \<noteq> sample_json" by code_simp+
  have p: "JSON_parse sample_platform ''{ broken'' = Inl (Error ''Unexpected token'')"
    using ne by (simp add: sample_platform_def)
  have t: "map timestamp (shotPrompts (app (exec sample_platform initial_session ?es)))
     = [''0:00 - 0:08'', ''0:08 - 0:10'']" by code_simp
  have e: "error (app (exec sample_platform initial_session ?es)) = None" by code_simp
  note inst = prompts_follow_text[of sample_platform ?es "''{ broken''" "Error ''Unexpected token''"]
  from inst p have "shotPrompts (app (exec sample_platform initial_session (?es @ [EditJson ''{ broken'']))) = []"
    by metis
  moreover from inst have "jsonOutput (app (exec sample_platform initial_session (?es @ [EditJson ''{ broken'']))) = ''{ broken''"
    by blast
  moreover from inst e have "error (app (exec sample_platform initial_session (?es @ [EditJson ''{ broken'']))) = None"
    by metis
  moreover have j: "jsonOutput (app (exec ?html initial_session ?es)) = ''<html>''" by code_simp
  moreover have "shotPrompts (app (exec ?html initial_session ?es)) = []"
  proof -
    have "JSON_parse ?html ''<html>'' = Inl (Error ''Unexpected token'')"
      using ne by (simp add: sample_platform_def)
    with prompts_follow_text[of ?html ?es "''<html>''" "Error ''Unexpected token''"] j
    show ?thesis by metis
  qed
  ultimately show ?thesis using t p by blast
qed

section \<open>Outstanding analyses\<close>

lemma waiting_offers_nothing:
  assumes "isLoading (app s)" and "error (app s) = None" and "offered s e"
  shows "\<exists>i. e = AnalysisSettles i"
  using assms by (cases e) (simp_all add: result_shown_def textarea_mounted_def)

lemma begin_fields:
  assumes "handleFileUpload_begin env f st = (st', True)"
  shows "isLoading st'" and "error st' = None"
  using assms by (auto simp: handleFileUpload_begin_def split: if_splits)

lemma ui_step_one_outstanding:
  assumes "one_outstanding s"
  shows "one_outstanding (ui_step env s e)"
proof (cases "offered s e")
  case False
  with assms show ?thesis by (simp add: ui_step_def)
next
  case off: True
  show ?thesis
  proof (cases "pending s = []")
    case idle: True
    show ?thesis
    proof (cases e)
      case (UploadFile f)
      obtain st started where b: "handleFileUpload_begin env f (app s) = (st, started)"
        by (cases "handleFileUpload_begin env f (app s)")
      show ?thesis
      proof (cases started)
        case True
        with b begin_fields[of env f "app s" st] have "isLoading st" "error st = None" by simp_all
        with UploadFile b True idle off show ?thesis
          by (simp add: ui_step_def one_outstanding_def rerender_fields)
      next
        case False
        with UploadFile b idle off show ?thesis by (simp add: ui_step_def one_outstanding_def)
      qed
    next
      case (AnalysisSettles i)
      with idle off show ?thesis by (simp add: ui_step_def one_outstanding_def)
    qed (use idle off in \<open>simp_all add: ui_step_def one_outstanding_def\<close>)
  next
    case busy: False
    with assms have w: "length (pending s) = 1" "isLoading (app s)" "error (app s) = None"
      by (simp_all add: one_outstanding_def)
    from waiting_offers_nothing[OF w(2,3) off] obtain i where e: "e = AnalysisSettles i" ..
    with off w(1) have "i = 0" by simp
    with e w(1) off show ?thesis by (simp add: ui_step_def one_outstanding_def)
  qed
qed

lemma ui_exec_snoc: "ui_exec env s (es @ [e]) = ui_step env (ui_exec env s es) e"
  by (simp add: ui_exec_def)

lemma ui_exec_one_outstanding: "one_outstanding (ui_exec env initial_session es)"
proof (induction es rule: rev_induct)
  case Nil
  show ?case by (simp add: ui_exec_def one_outstanding_def initial_session_def)
next
  case (snoc e es)
  then show ?case unfolding ui_exec_snoc by (rule ui_step_one_outstanding)
qed

text \<open>
  Claim C9, as amended. The handler has no guard of its own: called with a video file it
  starts an analysis in whatever state it is called. It is the page that keeps the
  analyses apart: in every execution made of the events that the page offers, at most one
  analysis is outstanding, and while one is, the state is loading and no upload is
  offered.
\<close>

theorem one_analysis_through_the_page:
  "length (pending (ui_exec env initial_session es)) \<le> 1
   \<and> (pending (ui_exec env initial_session es) \<noteq> [] \<longrightarrow>
        isLoading (app (ui_exec env initial_session es))
        \<and> \<not> offered (ui_exec env initial_session es) (UploadFile f))
   \<and> (startsWith (file_type f) ''video/'' \<longrightarrow> pending (step env s (UploadFile f)) = pending s @ [f])"
proof (intro conjI impI)
  note inv = ui_exec_one_outstanding[of env es]
  show "length (pending (ui_exec env initial_session es)) \<le> 1"
    using inv by (simp add: one_outstanding_def split: if_splits)
  assume "pending (ui_exec env initial_session es) \<noteq> []"
  with inv show l: "isLoading (app (ui_exec env initial_session es))"
    by (simp add: one_outstanding_def)
  then show "\<not> offered (ui_exec env initial_session es) (UploadFile f)" by simp
next
  assume "startsWith (file_type f) ''video/''"
  then show "pending (step env s (UploadFile f)) = pending s @ [f]"
    by (simp add: handleFileUpload_begin_def)
qed

theorem one_analysis_through_the_page_witness:
  "pending (ui_exec sample_platform initial_session [UploadFile sample_file, UploadFile sample_file])
     = [sample_file]
   \<and> isLoading (app (ui_exec sample_platform initial_session [UploadFile sample_file, UploadFile sample_file]))
   \<and> \<not> offered (ui_exec sample_platform initial_session [UploadFile sample_file, UploadFile sample_file])
               (UploadFile sample_file)
   \<and> startsWith (file_type sample_file) ''video/''
   \<and> pending (step sample_platform initial_session (UploadFile sample_file)) = [sample_file]"
proof -
  let ?s = "ui_exec sample_platform initial_session [UploadFile sample_file, UploadFile sample_file]"
  have p: "pending ?s = [sample_file]" by code_simp
  have v: "startsWith (file_type sample_file) ''video/''"
    by (simp add: sample_file_def startsWith_def)
  note inst = one_analysis_through_the_page
                [of sample_platform "[UploadFile sample_file, UploadFile sample_file]"
                    sample_file initial_session]
  from inst p have "isLoading (app ?s) \<and> \<not> offered ?s (UploadFile sample_file)" by simp
  moreover from inst v have "pending (step sample_platform initial_session (UploadFile sample_file)) = [sample_file]"
    by (simp add: initial_session_def)
  ultimately show ?thesis using p v by blast
qed

text \<open>
  Claim C9 as stated fails: the handler, called a second time while the first analysis
  is outstanding and the state is loading, starts a second analysis.
\<close>

theorem upload_guard_counterexample:
  "isLoading (app (exec sample_platform initial_session [UploadFile sample_file]))
   \<and> pending (exec sample_platform initial_session [UploadFile sample_file]) = [sample_file]
   \<and> pending (exec sample_platform initial_session [UploadFile sample_file, UploadFile sample_file])
       = [sample_file, sample_file]"
  by code_simp

end
